theory Spec2Isabelle
  imports Complex_Main
begin

section \<open>Python strings as used by the storage manager\<close>

text \<open>
  Strings are character lists. The functions below are the string methods that
  \<^verbatim>\<open>storage_manager.py\<close> calls, each with the separator or character set the source
  passes.
\<close>

definition startswith :: "string \<Rightarrow> string \<Rightarrow> bool" where
  "startswith s p = (take (length p) s = p)"

definition endswith :: "string \<Rightarrow> string \<Rightarrow> bool" where
  "endswith s p = (length p \<le> length s \<and> drop (length s - length p) s = p)"

text \<open>\<^verbatim>\<open>s.lstrip(chars)\<close>: removes every leading character that occurs in \<open>chars\<close>
  (a character set, not a prefix).\<close>

definition lstrip :: "string \<Rightarrow> string \<Rightarrow> string" where
  "lstrip chars s = dropWhile (\<lambda>c. c \<in> set chars) s"

text \<open>\<^verbatim>\<open>s.split(sep)\<close> for a one-character separator: one part more than there are
  separators, empty parts kept.\<close>

fun split_sep :: "char \<Rightarrow> string \<Rightarrow> string list" where
  "split_sep c [] = [[]]"
| "split_sep c (x # xs) =
     (if x = c then [] # split_sep c xs
      else (case split_sep c xs of
              [] \<Rightarrow> [[x]]
            | p # ps \<Rightarrow> (x # p) # ps))"

text \<open>\<^verbatim>\<open>s.split(sep, maxsplit=1)\<close>: one part when the separator is absent, else the text
  before the first separator and the text after it.\<close>

definition split_first :: "char \<Rightarrow> string \<Rightarrow> string list" where
  "split_first c s =
     (if c \<in> set s
      then [takeWhile (\<lambda>x. x \<noteq> c) s, tl (dropWhile (\<lambda>x. x \<noteq> c) s)]
      else [s])"

text \<open>\<^verbatim>\<open>s.rsplit(sep, maxsplit=1)\<close>: one part when the separator is absent, else the text
  before the last separator and the text after it.\<close>

definition rsplit_last :: "char \<Rightarrow> string \<Rightarrow> string list" where
  "rsplit_last c s =
     (if c \<in> set s
      then [rev (tl (dropWhile (\<lambda>x. x \<noteq> c) (rev s))), rev (takeWhile (\<lambda>x. x \<noteq> c) (rev s))]
      else [s])"

text \<open>\<^verbatim>\<open>sep.join(parts)\<close>.\<close>

fun join :: "string \<Rightarrow> string list \<Rightarrow> string" where
  "join sep [] = []"
| "join sep [p] = p"
| "join sep (p # q # ps) = p @ sep @ join sep (q # ps)"

text \<open>\<^verbatim>\<open>os.path.join(a, b)\<close> on POSIX.\<close>

definition os_path_join :: "string \<Rightarrow> string \<Rightarrow> string" where
  "os_path_join a b =
     (if startswith b ''/'' then b
      else if a = [] \<or> endswith a ''/'' then a @ b
      else a @ ''/'' @ b)"

text \<open>\<^verbatim>\<open>os.path.dirname(p)\<close> on POSIX: the text up to the last slash, with trailing
  slashes removed unless it consists of slashes only.\<close>

definition os_path_dirname :: "string \<Rightarrow> string" where
  "os_path_dirname p =
     (let h = rev (dropWhile (\<lambda>x. x \<noteq> CHR ''/'') (rev p))
      in if h \<noteq> [] \<and> list_ex (\<lambda>x. x \<noteq> CHR ''/'') h
         then rev (dropWhile (\<lambda>x. x = CHR ''/'') (rev h))
         else h)"

section \<open>Errors\<close>

text \<open>
  Every exception the modelled code raises or lets through is a value; the string of an
  error is the fixed part of the source's message.
\<close>

datatype error =
    AssertionError string
  | AttributeError string
  | RuntimeError string
  | TypeError string
  | ValueError string
  | IndexError
  | KeyError string
  | NotImplementedError
  | FileNotFoundError
  | IsADirectoryError
  | NotADirectoryError
  | PermissionError
  | SystemError
  | InvalidStateError
  | CancelledError

section \<open>Path resolution\<close>

text \<open>
  \<^verbatim>\<open>boto3_url_re = re.compile(r"([^\.]+)\.([\d\.]+)")\<close>, used with \<^verbatim>\<open>match\<close>: anchored
  at the start only. Group 1 is the non-empty text before the first dot, group 2 the
  longest non-empty run of digits and dots after that dot. Digits are the ASCII digits:
  characters here are bytes.
\<close>

definition is_digit :: "char \<Rightarrow> bool" where
  "is_digit c = (c \<in> set ''0123456789'')"

definition boto3_url_match :: "string \<Rightarrow> (string \<times> string) option" where
  "boto3_url_match s =
     (let g1 = takeWhile (\<lambda>c. c \<noteq> CHR ''.'') s;
          r = dropWhile (\<lambda>c. c \<noteq> CHR ''.'') s
      in if g1 = [] then None
         else (case r of
                 [] \<Rightarrow> None
               | d # r' \<Rightarrow>
                   (let g2 = takeWhile (\<lambda>c. is_digit c \<or> c = CHR ''.'') r'
                    in if g2 = [] then None else Some (g1, g2))))"

text \<open>
  \<^verbatim>\<open>get_tmp_file_name\<close>: the clock's formatted time and the process id are inputs.
  \<^verbatim>\<open>fp.split("/")[-1]\<close> is the last part, which always exists.
\<close>

definition get_tmp_file_name :: "string \<Rightarrow> string \<Rightarrow> string \<Rightarrow> string \<Rightarrow> string" where
  "get_tmp_file_name current_time pid tmp_local_folder fp =
     (let base_path = os_path_join tmp_local_folder (last (split_sep CHR ''/'' fp))
      in join ''-'' [base_path, current_time, pid] @ ''.tmpfile'')"

datatype upload_fn = Boto3Client_async_upload_fileobj

record Boto3MetaInfo =
  b_is_async :: bool
  b_client :: "nat option"
  bucket_name :: string
  endpoint :: string
  file_path :: string
  b_async_upload_fn :: upload_fn
  local_nvme_path :: string

record LocalMetaInfo =
  l_client :: "nat option"
  dest_path :: string

datatype meta = Boto3Meta Boto3MetaInfo | LocalMeta LocalMetaInfo

definition get_boto3_meta ::
  "string \<Rightarrow> string \<Rightarrow> string \<Rightarrow> string \<Rightarrow> bool \<Rightarrow> error + Boto3MetaInfo" where
  "get_boto3_meta current_time pid fp tmp_local_folder is_async =
     (if \<not> startswith fp ''s3://'' then Inl (AssertionError ''is not a boto3 url'')
      else (case split_sep CHR ''/'' (lstrip ''s3://'' fp) of
              [] \<Rightarrow> Inl IndexError
            | p0 # rest \<Rightarrow>
                (case boto3_url_match p0 of
                   None \<Rightarrow> Inl (AssertionError ''is not a valid boto3 url'')
                 | Some (bucket, ep) \<Rightarrow>
                     Inr \<lparr> b_is_async = is_async,
                           b_client = None,
                           bucket_name = bucket,
                           endpoint = ''http://'' @ ep @ '':80'',
                           file_path = join ''/'' rest,
                           b_async_upload_fn = Boto3Client_async_upload_fileobj,
                           local_nvme_path =
                             get_tmp_file_name current_time pid tmp_local_folder fp \<rparr>)))"

definition get_local_meta :: "string \<Rightarrow> error + LocalMetaInfo" where
  "get_local_meta fp =
     (if startswith fp ''s3://'' then Inl (AssertionError ''is not a local path'')
      else Inr \<lparr> l_client = None, dest_path = fp \<rparr>)"

section \<open>The process: client cache, file system, environment\<close>

text \<open>
  A client object is identified by its reference, the index at which it was constructed
  in \<open>clients\<close>: two constructions give two objects even when their fields agree.
  \<open>CLI_DICT\<close> is the class attribute of \<^verbatim>\<open>StorageManager\<close>, a dictionary from
  backend key to client reference.

  The file system is a table from normalised paths to nodes. \<open>unreadable\<close> and
  \<open>unwritable\<close> are the paths for which \<^verbatim>\<open>os.access\<close> answers no, \<open>foreign\<close> the
  paths another user owns (\<^verbatim>\<open>os.chmod\<close> is refused there), \<open>remove_fault\<close>
  gives the error \<^verbatim>\<open>os.remove\<close> raises on an existing file when the system refuses
  to remove it, and \<open>f_bavail\<close>, \<open>f_bsize\<close> are the two \<^verbatim>\<open>statvfs\<close> fields the code
  reads. \<open>rank_for_log\<close> is the answer of \<^verbatim>\<open>gpc.is_rank_for_log()\<close>, which is
  defined outside \<^verbatim>\<open>storage_manager.py\<close>, and \<open>current_time\<close> and \<open>pid\<close> are the
  clock and process id as \<^verbatim>\<open>get_tmp_file_name\<close> formats them.
\<close>

datatype client = LocalClient | Boto3Client string

datatype node = File | Dir

datatype log_event =
    Log_proxy_warning
  | Log_free_space string
  | Log_delete_tmpfile string
  | Log_delete_failed string error
  | Log_upload_failed string error
  | Log_checkpoint_failed string nat nat
  | Log_all_uploads_succeeded

record world =
  CLI_DICT :: "string \<rightharpoonup> nat"
  clients :: "client list"
  nodes :: "(string \<times> node) list"
  unreadable :: "string list"
  unwritable :: "string list"
  foreign :: "string list"
  remove_fault :: "string \<rightharpoonup> error"
  f_bavail :: nat
  f_bsize :: nat
  proxy_in_environ :: bool
  s3_keys_in_environ :: bool
  rank_for_log :: bool
  current_time :: string
  pid :: string
  log :: "log_event list"

definition logger :: "log_event \<Rightarrow> world \<Rightarrow> world" where
  "logger ev w = w\<lparr>log := log w @ [ev]\<rparr>"

subsection \<open>The manager object\<close>

text \<open>
  A task is the future \<^verbatim>\<open>run_in_executor\<close> returned, with the arguments of the upload
  it runs and the state it is in once \<^verbatim>\<open>asyncio.wait\<close> has returned. An attribute
  that \<^verbatim>\<open>__init__\<close> assigns only inside its \<^verbatim>\<open>if\<close> is an option: \<open>None\<close> is the
  attribute that was never assigned.
\<close>

datatype arg = Ref nat | Str string | NoneVal

datatype task_state = Finished | Failed error | Cancelled | Pending

record task =
  t_fn :: upload_fn
  t_args :: "arg list"
  t_state :: task_state

datatype loop = EventLoop

record manager =
  exception_list :: "(error \<times> nat) list"
  to_be_del_files :: "string list"
  async_stack :: "task list"
  upload_count :: nat
  tmp_local_folder :: string
  async_mode :: bool
  has_warning :: bool
  async_loop :: "loop option"
  thread_pool :: "int option"

subsection \<open>Client cache and \<^verbatim>\<open>_get_client\<close>\<close>

text \<open>\<^verbatim>\<open>Boto3Client.__init__\<close> reads both credentials from the environment and raises
  \<^verbatim>\<open>RuntimeError\<close> when one is missing; \<^verbatim>\<open>LocalClient.__init__\<close> cannot fail.\<close>

definition BACKEND_INIT_METHOD :: "world \<Rightarrow> string \<Rightarrow> string option \<Rightarrow> error + client" where
  "BACKEND_INIT_METHOD w backend init_arg =
     (if backend = ''boto3'' then
        (case init_arg of
           None \<Rightarrow> Inl (TypeError ''s3_endpoint_url'')
         | Some url \<Rightarrow>
             if s3_keys_in_environ w then Inr (Boto3Client url)
             else Inl (RuntimeError ''Please set boto3 bucket S3_ACCESS_KEY_ID and S3_SECRET_ACCESS_KEY_ID''))
      else if backend = ''local'' then Inr LocalClient
      else Inl (KeyError backend))"

text \<open>The last four lines of \<^verbatim>\<open>_get_client\<close>: construct a client only when the key is
  not in \<open>CLI_DICT\<close>, then read the reference stored under the key.\<close>

definition cached_client ::
  "world \<Rightarrow> string \<Rightarrow> string \<Rightarrow> string option \<Rightarrow> (error + nat) \<times> world" where
  "cached_client w backend backend_key init_arg =
     (case CLI_DICT w backend_key of
        Some r \<Rightarrow> (Inr r, w)
      | None \<Rightarrow>
          (case BACKEND_INIT_METHOD w backend init_arg of
             Inl e \<Rightarrow> (Inl e, w)
           | Inr c \<Rightarrow>
               (Inr (length (clients w)),
                w\<lparr>clients := clients w @ [c],
                  CLI_DICT := (CLI_DICT w)(backend_key \<mapsto> length (clients w))\<rparr>)))"

definition proxy_warning :: "world \<Rightarrow> manager \<Rightarrow> world \<times> manager" where
  "proxy_warning w m =
     (if proxy_in_environ w \<and> \<not> has_warning m
      then (logger Log_proxy_warning w, m\<lparr>has_warning := True\<rparr>)
      else (w, m))"

definition get_client :: "world \<Rightarrow> manager \<Rightarrow> string \<Rightarrow> (error + meta) \<times> world \<times> manager" where
  "get_client w m path =
     (case split_first CHR '':'' path of
        [backend, p] \<Rightarrow>
          if backend = ''local'' then
            (case get_local_meta p of
               Inl e \<Rightarrow> (Inl e, w, m)
             | Inr mi \<Rightarrow>
                 (case cached_client w backend backend None of
                    (Inl e, w') \<Rightarrow> (Inl e, w', m)
                  | (Inr r, w') \<Rightarrow> (Inr (LocalMeta (mi\<lparr>l_client := Some r\<rparr>)), w', m)))
          else if backend = ''boto3'' then
            (case get_boto3_meta (current_time w) (pid w) p (tmp_local_folder m) (async_mode m) of
               Inl e \<Rightarrow> (Inl e, w, m)
             | Inr mi \<Rightarrow>
                 (case proxy_warning w m of
                    (w0, m0) \<Rightarrow>
                      (case cached_client w0 backend (backend @ '':'' @ endpoint mi)
                              (Some (endpoint mi)) of
                         (Inl e, w') \<Rightarrow> (Inl e, w', m0)
                       | (Inr r, w') \<Rightarrow>
                           (Inr (Boto3Meta (mi\<lparr>b_client := Some r\<rparr>)), w', m0))))
          else (Inl (AssertionError ''Unkown backend''), w, m)
      | _ \<Rightarrow> (Inl (AttributeError ''is not startwith backend prefix''), w, m))"

text \<open>\<^verbatim>\<open>unpack_meta\<close>: the attributes in the order \<^verbatim>\<open>__init__\<close> assigns them, without
  \<^verbatim>\<open>endpoint\<close>, \<^verbatim>\<open>async_upload_fn\<close> and \<^verbatim>\<open>is_async\<close>, and without
  \<^verbatim>\<open>local_nvme_path\<close> when the meta is not asynchronous.\<close>

definition ref_arg :: "nat option \<Rightarrow> arg" where
  "ref_arg r = (case r of None \<Rightarrow> NoneVal | Some n \<Rightarrow> Ref n)"

fun unpack_meta :: "meta \<Rightarrow> arg list" where
  "unpack_meta (Boto3Meta b) =
     [ref_arg (b_client b), Str (bucket_name b), Str (file_path b)]
       @ (if b_is_async b then [Str (local_nvme_path b)] else [])"
| "unpack_meta (LocalMeta l) = [ref_arg (l_client l), Str (dest_path l)]"

section \<open>Operating-system calls\<close>

text \<open>
  Paths are compared after removing trailing slashes (\<open>/dev/shm/test/\<close> and
  \<open>/dev/shm/test\<close> name one directory); no other normalisation is modelled.
\<close>

definition norm_path :: "string \<Rightarrow> string" where
  "norm_path p =
     (if list_ex (\<lambda>x. x \<noteq> CHR ''/'') p then rev (dropWhile (\<lambda>x. x = CHR ''/'') (rev p)) else p)"

definition lookup_node :: "world \<Rightarrow> string \<Rightarrow> node option" where
  "lookup_node w p = map_of (nodes w) (norm_path p)"

definition os_path_exists :: "world \<Rightarrow> string \<Rightarrow> bool" where
  "os_path_exists w p = (lookup_node w p \<noteq> None)"

definition os_path_isdir :: "world \<Rightarrow> string \<Rightarrow> bool" where
  "os_path_isdir w p = (lookup_node w p = Some Dir)"

definition os_access_W :: "world \<Rightarrow> string \<Rightarrow> bool" where
  "os_access_W w p = (os_path_exists w p \<and> norm_path p \<notin> set (unwritable w))"

definition os_access_R :: "world \<Rightarrow> string \<Rightarrow> bool" where
  "os_access_R w p = (os_path_exists w p \<and> norm_path p \<notin> set (unreadable w))"

definition unlink :: "string \<Rightarrow> world \<Rightarrow> world" where
  "unlink p w = w\<lparr>nodes := filter (\<lambda>(q, n). q \<noteq> norm_path p) (nodes w)\<rparr>"

text \<open>\<^verbatim>\<open>os.remove\<close>: a missing path and a directory are errors; an existing file is
  removed unless the system refuses.\<close>

definition os_remove :: "world \<Rightarrow> string \<Rightarrow> (error + unit) \<times> world" where
  "os_remove w p =
     (case lookup_node w p of
        None \<Rightarrow> (Inl FileNotFoundError, w)
      | Some Dir \<Rightarrow> (Inl IsADirectoryError, w)
      | Some File \<Rightarrow>
          (case remove_fault w (norm_path p) of
             Some e \<Rightarrow> (Inl e, w)
           | None \<Rightarrow> (Inr (), unlink p w)))"

text \<open>\<^verbatim>\<open>os.makedirs(p, exist_ok=True)\<close> has three outcomes: the directory exists or
  was made (\<open>Made\<close>), the path is a file and \<^verbatim>\<open>FileExistsError\<close> is raised
  (\<open>Exists_as_file\<close>), the parent refuses writing and \<^verbatim>\<open>PermissionError\<close> is raised
  (\<open>Denied\<close>). Missing parents are taken to be creatable.\<close>

datatype makedirs_result = Made | Exists_as_file | Denied

definition os_makedirs :: "world \<Rightarrow> string \<Rightarrow> makedirs_result \<times> world" where
  "os_makedirs w p =
     (case lookup_node w p of
        Some Dir \<Rightarrow> (Made, w)
      | Some File \<Rightarrow> (Exists_as_file, w)
      | None \<Rightarrow>
          if norm_path (os_path_dirname (norm_path p)) \<in> set (unwritable w) then (Denied, w)
          else (Made, w\<lparr>nodes := nodes w @ [(norm_path p, Dir)]\<rparr>))"

text \<open>\<^verbatim>\<open>os.listdir\<close>: the names directly under a directory.\<close>

definition child_name :: "string \<Rightarrow> string \<Rightarrow> string option" where
  "child_name d p =
     (let pre = (if endswith d ''/'' then d else d @ ''/'')
      in if startswith p pre \<and> length pre < length p \<and> CHR ''/'' \<notin> set (drop (length pre) p)
         then Some (drop (length pre) p) else None)"

definition os_listdir :: "world \<Rightarrow> string \<Rightarrow> error + string list" where
  "os_listdir w d =
     (case lookup_node w d of
        None \<Rightarrow> Inl FileNotFoundError
      | Some File \<Rightarrow> Inl NotADirectoryError
      | Some Dir \<Rightarrow> Inr (List.map_filter (\<lambda>(p, n). child_name (norm_path d) p) (nodes w)))"

definition is_OSError :: "error \<Rightarrow> bool" where
  "is_OSError e =
     (e = FileNotFoundError \<or> e = IsADirectoryError \<or> e = NotADirectoryError \<or> e = PermissionError)"

section \<open>Backend clients\<close>

subsection \<open>\<^verbatim>\<open>Boto3Client.get_fns\<close>\<close>

text \<open>
  The paginator's answer is the input: a list of pages, each with its \<^verbatim>\<open>Contents\<close>
  entry (the object keys of the page) when the page has one.
  \<^verbatim>\<open>fp.rsplit("/", maxsplit=1)[1]\<close> is the second part of the split and an
  \<^verbatim>\<open>IndexError\<close> when the key has no slash.
\<close>

type_synonym page = "string list option"

definition key_name :: "string \<Rightarrow> error + string" where
  "key_name fp =
     (case rsplit_last CHR ''/'' fp of
        [a, b] \<Rightarrow> Inr b
      | _ \<Rightarrow> Inl IndexError)"

fun page_names :: "string list \<Rightarrow> string list \<Rightarrow> error + string list" where
  "page_names folder_name_list [] = Inr folder_name_list"
| "page_names folder_name_list (k # ks) =
     (case key_name k of
        Inl e \<Rightarrow> Inl e
      | Inr n \<Rightarrow> page_names (folder_name_list @ [n]) ks)"

fun pages_names :: "string list \<Rightarrow> page list \<Rightarrow> error + string list" where
  "pages_names folder_name_list [] = Inr folder_name_list"
| "pages_names folder_name_list (pg # pgs) =
     (case pg of
        None \<Rightarrow> Inl (KeyError ''Contents'')
      | Some ks \<Rightarrow>
          (case page_names folder_name_list ks of
             Inl e \<Rightarrow> Inl e
           | Inr l \<Rightarrow> pages_names l pgs))"

definition Boto3Client_get_fns :: "page list \<Rightarrow> error + string list" where
  "Boto3Client_get_fns pages = pages_names [] pages"

subsection \<open>\<^verbatim>\<open>LocalClient.delete_obj\<close>\<close>

definition LocalClient_delete_obj :: "world \<Rightarrow> string \<Rightarrow> (error + unit) \<times> world" where
  "LocalClient_delete_obj w fp =
     (if \<not> os_path_isdir w fp then os_remove w fp else (Inr (), w))"

section \<open>The storage manager\<close>

subsection \<open>Construction\<close>

text \<open>\<^verbatim>\<open>os.chmod(p, S_IRWXU | S_IRWXG | S_IRWXO)\<close>: refused on a missing path and on a
  path of another user, else the path becomes readable and writable.\<close>

definition os_chmod_rwx :: "world \<Rightarrow> string \<Rightarrow> (error + unit) \<times> world" where
  "os_chmod_rwx w p =
     (if \<not> os_path_exists w p then (Inl FileNotFoundError, w)
      else if norm_path p \<in> set (foreign w) then (Inl PermissionError, w)
      else (Inr (),
            w\<lparr>unreadable := removeAll (norm_path p) (unreadable w),
              unwritable := removeAll (norm_path p) (unwritable w)\<rparr>))"

definition check_tmp_folder_accessibility :: "world \<Rightarrow> string \<Rightarrow> error + unit" where
  "check_tmp_folder_accessibility w folder =
     (if os_path_exists w folder \<and> \<not> (os_access_W w folder \<and> os_access_R w folder)
      then Inl (RuntimeError ''dose not have read and write permissions'')
      else Inr ())"

text \<open>\<^verbatim>\<open>try_delete_tmpfile\<close>: the loop over the listing; \<^verbatim>\<open>except OSError: pass\<close> lets
  any other error through.\<close>

fun sweep :: "world \<Rightarrow> string \<Rightarrow> string list \<Rightarrow> (error + unit) \<times> world" where
  "sweep w tmp_dir [] = (Inr (), w)"
| "sweep w tmp_dir (filename # rest) =
     (if endswith filename ''.tmpfile'' then
        (case os_remove w (os_path_join tmp_dir filename) of
           (Inr u, w') \<Rightarrow>
             sweep (logger (Log_delete_tmpfile (os_path_join tmp_dir filename)) w') tmp_dir rest
         | (Inl e, w') \<Rightarrow> if is_OSError e then sweep w' tmp_dir rest else (Inl e, w'))
      else sweep w tmp_dir rest)"

definition try_delete_tmpfile :: "world \<Rightarrow> string \<Rightarrow> (error + unit) \<times> world" where
  "try_delete_tmpfile w tmp_dir =
     (case os_listdir w tmp_dir of
        Inl e \<Rightarrow> (Inl e, w)
      | Inr names \<Rightarrow> sweep w tmp_dir names)"

text \<open>
  \<^verbatim>\<open>get_mount_point_free_size\<close> returns \<^verbatim>\<open>st.f_bavail * st.f_bsize / (1024**3)\<close>, a
  float, and nothing (\<^verbatim>\<open>None\<close>) for a missing path. The quotient is kept exact
  here. \<^verbatim>\<open>__init__\<close> compares it with the literal \<^verbatim>\<open>0.1\<close>, whose value as a double is
  \<open>3602879701896397 / 2 ^ 55\<close>. Rounding the quotient to a double does not change the
  comparison: a quotient below the literal has a numerator below \<open>2 ^ 27\<close> and is a
  double itself, and rounding is monotone.
\<close>

definition get_mount_point_free_size :: "world \<Rightarrow> string \<Rightarrow> rat option" where
  "get_mount_point_free_size w path =
     (if os_path_exists w path then Some (of_nat (f_bavail w * f_bsize w) / (1024 ^ 3)) else None)"

definition float_0_1 :: rat where
  "float_0_1 = 3602879701896397 / 36028797018963968"

definition StorageManager_init ::
  "world \<Rightarrow> bool \<Rightarrow> string \<Rightarrow> bool \<Rightarrow> int \<Rightarrow> (error + manager) \<times> world" where
  "StorageManager_init w enable_save tmp async n_async_workers =
     (let m = \<lparr> exception_list = [], to_be_del_files = [], async_stack = [],
                upload_count = 0, tmp_local_folder = tmp, async_mode = async,
                has_warning = False, async_loop = None, thread_pool = None \<rparr>
      in if enable_save \<and> async then
           if n_async_workers \<le> 0 then (Inl (ValueError ''max_workers must be greater than 0''), w)
           else
             (case check_tmp_folder_accessibility w (os_path_dirname tmp) of
                Inl e \<Rightarrow> (Inl e, w)
              | Inr u \<Rightarrow>
                  (case (case os_makedirs w tmp of
                           (Denied, w1) \<Rightarrow> (Inl PermissionError, w1)
                         | (Exists_as_file, w1) \<Rightarrow> (Inr (), w1)
                         | (Made, w1) \<Rightarrow> os_chmod_rwx w1 tmp) of
                     (Inl e, w2) \<Rightarrow> (Inl e, w2)
                   | (Inr u, w2) \<Rightarrow>
                       (case check_tmp_folder_accessibility w2 tmp of
                          Inl e \<Rightarrow> (Inl e, w2)
                        | Inr u \<Rightarrow>
                            (case try_delete_tmpfile w2 tmp of
                               (Inl e, w3) \<Rightarrow> (Inl e, w3)
                             | (Inr u, w3) \<Rightarrow>
                                 (case get_mount_point_free_size w3 tmp of
                                    None \<Rightarrow> (Inl (TypeError ''NoneType < float''), w3)
                                  | Some free_size \<Rightarrow>
                                      if free_size < float_0_1 then
                                        (Inl (RuntimeError ''Insufficient temporary storage space''),
                                         logger (Log_free_space ''less then 100 GB'') w3)
                                      else
                                        (Inr (m\<lparr>async_loop := Some EventLoop,
                                                thread_pool := Some n_async_workers\<rparr>), w3))))))
         else (Inr m, w))"

subsection \<open>The asynchronous scheduler\<close>

text \<open>
  \<^verbatim>\<open>Future.exception()\<close> of asyncio returns the exception of a finished future, or
  \<^verbatim>\<open>None\<close> when it finished without one; it raises \<^verbatim>\<open>CancelledError\<close> for a cancelled
  future and \<^verbatim>\<open>InvalidStateError\<close> for one that is not done. \<^verbatim>\<open>CancelledError\<close>
  derives from \<^verbatim>\<open>BaseException\<close>, not from \<^verbatim>\<open>Exception\<close>.
\<close>

definition task_exception :: "task \<Rightarrow> error + error option" where
  "task_exception t =
     (case t_state t of
        Finished \<Rightarrow> Inr None
      | Failed e \<Rightarrow> Inr (Some e)
      | Cancelled \<Rightarrow> Inl CancelledError
      | Pending \<Rightarrow> Inl InvalidStateError)"

definition is_Exception :: "error \<Rightarrow> bool" where
  "is_Exception e = (e \<noteq> CancelledError)"

text \<open>The \<^verbatim>\<open>for\<close> loop of \<^verbatim>\<open>_sync_tasks\<close>, over what \<^verbatim>\<open>task.exception()\<close> does for each
  task in the order of \<^verbatim>\<open>_async_stack\<close>. The log line indexes \<^verbatim>\<open>_to_be_del_files\<close>
  inside the handler, so an index out of range leaves the loop with \<^verbatim>\<open>IndexError\<close>.\<close>

fun sync_loop ::
  "world \<Rightarrow> manager \<Rightarrow> (error + error option) list \<Rightarrow> (error + unit) \<times> world \<times> manager" where
  "sync_loop w m [] = (Inr (), w, m)"
| "sync_loop w m (c # cs) =
     (case c of
        Inr r \<Rightarrow> sync_loop w m cs
      | Inl e \<Rightarrow>
          if e = InvalidStateError then sync_loop w m cs
          else if is_Exception e then
            (let file_id = length (exception_list m);
                 m' = m\<lparr>exception_list := exception_list m @ [(e, file_id)]\<rparr>
             in if file_id < length (to_be_del_files m')
                then sync_loop (logger (Log_upload_failed (to_be_del_files m' ! file_id) e) w) m' cs
                else (Inl IndexError, w, m'))
          else (Inl e, w, m))"

definition sync_tasks :: "world \<Rightarrow> manager \<Rightarrow> (error + unit) \<times> world \<times> manager" where
  "sync_tasks w m =
     (if async_stack m = [] then (Inr (), w, m)
      else (case sync_loop w m (map task_exception (async_stack m)) of
              (Inl e, w', m') \<Rightarrow> (Inl e, w', m')
            | (Inr u, w', m') \<Rightarrow> (Inr (), w', m'\<lparr>async_stack := []\<rparr>)))"

text \<open>An event loop object is true in a condition, as every object without \<^verbatim>\<open>__bool__\<close>
  and \<^verbatim>\<open>__len__\<close> is.\<close>

definition truthy :: "loop \<Rightarrow> bool" where
  "truthy lp = True"

text \<open>\<^verbatim>\<open>async_executor\<close>; \<open>st\<close> is the state the new future will have reached when the
  next drain looks at it.\<close>

definition async_executor ::
  "manager \<Rightarrow> upload_fn \<Rightarrow> arg list \<Rightarrow> task_state \<Rightarrow> (error + unit) \<times> manager" where
  "async_executor m fn args st =
     (case async_loop m of
        None \<Rightarrow> (Inl (AttributeError ''_async_loop''), m)
      | Some lp \<Rightarrow>
          if \<not> truthy lp then (Inl (RuntimeError ''Event loop was not initialized''), m)
          else (case thread_pool m of
                  None \<Rightarrow> (Inl (AttributeError ''_thread_pool''), m)
                | Some pool \<Rightarrow>
                    (Inr (), m\<lparr>async_stack :=
                                 async_stack m @ [\<lparr>t_fn = fn, t_args = args, t_state = st\<rparr>]\<rparr>)))"

subsection \<open>The barrier\<close>

fun del_tmp_folder :: "world \<Rightarrow> string list \<Rightarrow> (error + unit) \<times> world" where
  "del_tmp_folder w [] = (Inr (), w)"
| "del_tmp_folder w (fp # fps) =
     (case os_remove w fp of
        (Inr u, w') \<Rightarrow> del_tmp_folder w' fps
      | (Inl e, w') \<Rightarrow>
          if e = FileNotFoundError then del_tmp_folder w' fps
          else if e = SystemError then del_tmp_folder (logger (Log_delete_failed fp e) w') fps
          else (Inl e, w'))"

text \<open>
  In \<^verbatim>\<open>wait\<close> the loop over \<^verbatim>\<open>_exception_list\<close> unpacks each record as
  \<^verbatim>\<open>file_id, error_msg\<close>, while \<^verbatim>\<open>_sync_tasks\<close> stored \<^verbatim>\<open>(e, file_id)\<close>: the name
  \<^verbatim>\<open>file_id\<close> is bound to the exception, and indexing the list of files with it is a
  \<^verbatim>\<open>TypeError\<close>, raised while the first log message is being formatted.
\<close>

definition getitem_by_error :: "string list \<Rightarrow> error \<Rightarrow> error + string" where
  "getitem_by_error files file_id = Inl (TypeError ''list indices must be integers or slices'')"

definition wait :: "world \<Rightarrow> manager \<Rightarrow> (error + unit) \<times> world \<times> manager" where
  "wait w m =
     (if \<not> async_mode m then (Inr (), w, m)
      else
        (case (case async_loop m of
                 None \<Rightarrow> (Inl (AttributeError ''_async_loop''), w, m)
               | Some lp \<Rightarrow> if truthy lp then sync_tasks w m else (Inr (), w, m)) of
           (Inl e, w1, m1) \<Rightarrow> (Inl e, w1, m1)
         | (Inr u, w1, m1) \<Rightarrow>
             (case exception_list m1 of
                (file_id, error_msg) # others \<Rightarrow>
                  (case getitem_by_error (to_be_del_files m1) file_id of
                     Inl e \<Rightarrow> (Inl e, w1, m1)
                   | Inr fp \<Rightarrow>
                       (Inl (RuntimeError ''Failed to upload''),
                        logger (Log_checkpoint_failed fp (upload_count m1) error_msg) w1, m1))
              | [] \<Rightarrow>
                  (case del_tmp_folder w1 (to_be_del_files m1) of
                     (Inl e, w2) \<Rightarrow> (Inl e, w2, m1)
                   | (Inr u, w2) \<Rightarrow>
                       (let m2 = m1\<lparr>exception_list := [], to_be_del_files := []\<rparr>
                        in if rank_for_log w2
                           then (Inr (), logger Log_all_uploads_succeeded w2,
                                 m2\<lparr>upload_count := upload_count m2 + 1\<rparr>)
                           else (Inr (), w2, m2))))))"

subsection \<open>Saving, loading and deleting through the manager\<close>

text \<open>
  A checkpoint object is its serialised bytes. What the storage backend answers to a
  transfer is an input of the call: \<open>None\<close> or the object for success, the error it
  raises otherwise. \<^verbatim>\<open>open(p, "wb")\<close> creates the file; missing parents are not
  modelled. The callers pass no positional arguments beyond the path and the object, so
  \<^verbatim>\<open>*args\<close> is empty in every call of a client method.
\<close>

type_synonym obj = string

definition open_wb :: "world \<Rightarrow> string \<Rightarrow> (error + unit) \<times> world" where
  "open_wb w p =
     (case lookup_node w p of
        Some Dir \<Rightarrow> (Inl IsADirectoryError, w)
      | Some File \<Rightarrow> (Inr (), w)
      | None \<Rightarrow> (Inr (), w\<lparr>nodes := nodes w @ [(norm_path p, File)]\<rparr>))"

text \<open>The static methods are reached through \<^verbatim>\<open>meta.client\<close>, so the class of the
  cached client decides which one runs, and the unpacked arguments must fit its
  parameters: the methods of \<^verbatim>\<open>Boto3Client\<close> take \<^verbatim>\<open>local_nvme_path\<close> as fourth
  positional parameter.\<close>

definition client_of :: "world \<Rightarrow> arg list \<Rightarrow> error + client" where
  "client_of w args =
     (case args of
        Ref r # rest \<Rightarrow>
          if r < length (clients w) then Inr (clients w ! r) else Inl (AttributeError ''client'')
      | _ \<Rightarrow> Inl (AttributeError ''client''))"

definition client_load :: "world \<Rightarrow> arg list \<Rightarrow> error + obj \<Rightarrow> error + obj" where
  "client_load w args answer =
     (case client_of w args of
        Inl e \<Rightarrow> Inl e
      | Inr LocalClient \<Rightarrow>
          (case tl args of
             Str fp # extra \<Rightarrow>
               if os_path_exists w fp then answer else Inl (AssertionError ''is not found'')
           | _ \<Rightarrow> Inl (TypeError ''load''))
      | Inr (Boto3Client url) \<Rightarrow>
          (case tl args of
             Str bucket # Str fp # Str nvme # extra \<Rightarrow> answer
           | _ \<Rightarrow> Inl (TypeError ''load'')))"

definition client_sync_upload_fileobj ::
  "world \<Rightarrow> arg list \<Rightarrow> error option \<Rightarrow> (error + unit) \<times> world" where
  "client_sync_upload_fileobj w args answer =
     (case client_of w args of
        Inl e \<Rightarrow> (Inl e, w)
      | Inr LocalClient \<Rightarrow>
          (case tl args of
             Str fp # extra \<Rightarrow>
               (case (if \<not> os_path_exists w (os_path_dirname fp)
                      then os_makedirs w (os_path_dirname fp) else (Made, w)) of
                  (Denied, w1) \<Rightarrow> (Inl PermissionError, w1)
                | (Exists_as_file, w1) \<Rightarrow> (Inl NotADirectoryError, w1)
                | (Made, w1) \<Rightarrow>
                    (case answer of
                       Some e \<Rightarrow> (Inl e, w1)
                     | None \<Rightarrow> open_wb w1 fp))
           | _ \<Rightarrow> (Inl (TypeError ''sync_upload_fileobj''), w))
      | Inr (Boto3Client url) \<Rightarrow>
          (case tl args of
             Str bucket # Str fp # Str nvme # extra \<Rightarrow>
               (case answer of Some e \<Rightarrow> (Inl e, w) | None \<Rightarrow> (Inr (), w))
           | _ \<Rightarrow> (Inl (TypeError ''sync_upload_fileobj''), w)))"

definition client_delete_obj :: "world \<Rightarrow> arg list \<Rightarrow> (error + unit) \<times> world" where
  "client_delete_obj w args =
     (case client_of w args of
        Inl e \<Rightarrow> (Inl e, w)
      | Inr LocalClient \<Rightarrow>
          (case tl args of
             [Str fp] \<Rightarrow> LocalClient_delete_obj w fp
           | _ \<Rightarrow> (Inl (TypeError ''delete_obj''), w))
      | Inr (Boto3Client url) \<Rightarrow>
          (case tl args of
             [a] \<Rightarrow> (Inl NotImplementedError, w)
           | _ \<Rightarrow> (Inl (TypeError ''delete_obj''), w)))"

text \<open>\<^verbatim>\<open>save\<close>: \<open>async_upload\<close> is the keyword argument (\<open>None\<close> when left out),
  \<open>answer\<close> what the backend answers to a synchronous upload and \<open>st\<close> the state the
  background upload will have reached at the next drain.\<close>

definition save ::
  "world \<Rightarrow> manager \<Rightarrow> string \<Rightarrow> bool option \<Rightarrow> error option \<Rightarrow> task_state
     \<Rightarrow> (error + unit) \<times> world \<times> manager" where
  "save w m save_path async_upload answer st =
     (case get_client w m save_path of
        (Inl e, w1, m1) \<Rightarrow> (Inl e, w1, m1)
      | (Inr mt, w1, m1) \<Rightarrow>
          if (case async_upload of None \<Rightarrow> async_mode m1 | Some b \<Rightarrow> b) then
            if tmp_local_folder m1 = [] then
              (Inl (AssertionError ''StorageManager is not setted tmp_local_folder''), w1, m1)
            else
              (case mt of
                 LocalMeta l \<Rightarrow> (Inl (AttributeError ''local_nvme_path''), w1, m1)
               | Boto3Meta b \<Rightarrow>
                   (let tmp_step_file = local_nvme_path b;
                        m2 = m1\<lparr>to_be_del_files := to_be_del_files m1 @ [tmp_step_file]\<rparr>
                    in (case open_wb w1 tmp_step_file of
                          (Inl e, w2) \<Rightarrow> (Inl e, w2, m2)
                        | (Inr u, w2) \<Rightarrow>
                            (case async_executor m2 (b_async_upload_fn b) (unpack_meta mt) st of
                               (Inl e, m3) \<Rightarrow> (Inl e, w2, m3)
                             | (Inr u, m3) \<Rightarrow>
                                 (case os_chmod_rwx w2 tmp_step_file of
                                    (Inl e, w3) \<Rightarrow> (Inl e, w3, m3)
                                  | (Inr u, w3) \<Rightarrow> (Inr (), w3, m3))))))
          else
            (case client_sync_upload_fileobj w1 (unpack_meta mt) answer of
               (Inl e, w2) \<Rightarrow> (Inl e, w2, m1)
             | (Inr u, w2) \<Rightarrow> (Inr (), w2, m1\<lparr>upload_count := upload_count m1 + 1\<rparr>)))"

text \<open>\<^verbatim>\<open>load\<close>: the two statements after \<^verbatim>\<open>self.wait()\<close> are \<open>resolve_and_load\<close>.\<close>

definition resolve_and_load ::
  "world \<Rightarrow> manager \<Rightarrow> string \<Rightarrow> error + obj \<Rightarrow> (error + obj) \<times> world \<times> manager" where
  "resolve_and_load w m load_path answer =
     (case get_client w m load_path of
        (Inl e, w1, m1) \<Rightarrow> (Inl e, w1, m1)
      | (Inr mt, w1, m1) \<Rightarrow> (client_load w1 (unpack_meta mt) answer, w1, m1))"

definition load ::
  "world \<Rightarrow> manager \<Rightarrow> string \<Rightarrow> error + obj \<Rightarrow> (error + obj) \<times> world \<times> manager" where
  "load w m load_path answer =
     (case wait w m of
        (Inl e, w1, m1) \<Rightarrow> (Inl e, w1, m1)
      | (Inr u, w1, m1) \<Rightarrow> resolve_and_load w1 m1 load_path answer)"

definition delete_obj :: "world \<Rightarrow> manager \<Rightarrow> string \<Rightarrow> (error + unit) \<times> world \<times> manager" where
  "delete_obj w m fp =
     (case get_client w m fp of
        (Inl e, w1, m1) \<Rightarrow> (Inl e, w1, m1)
      | (Inr mt, w1, m1) \<Rightarrow>
          (case client_delete_obj w1 (unpack_meta mt) of (r, w2) \<Rightarrow> (r, w2, m1)))"

subsection \<open>Sequences of calls\<close>

text \<open>A caller may catch an exception and go on, so a sequence of calls continues from
  the state each call leaves, whatever its outcome.\<close>

datatype call =
    Call_save string "bool option" "error option" task_state
  | Call_load string "error + obj"
  | Call_wait
  | Call_delete_obj string
  | Call_get_client string
  | Call_async_executor upload_fn "arg list" task_state

fun step :: "world \<times> manager \<Rightarrow> call \<Rightarrow> world \<times> manager" where
  "step (w, m) (Call_save p a ans st) = snd (save w m p a ans st)"
| "step (w, m) (Call_load p ans) = snd (load w m p ans)"
| "step (w, m) Call_wait = snd (wait w m)"
| "step (w, m) (Call_delete_obj p) = snd (delete_obj w m p)"
| "step (w, m) (Call_get_client p) = snd (get_client w m p)"
| "step (w, m) (Call_async_executor fn args st) = (w, snd (async_executor m fn args st))"

definition run :: "world \<times> manager \<Rightarrow> call list \<Rightarrow> world \<times> manager" where
  "run s cs = foldl step s cs"

section \<open>Invariants and frames\<close>

text \<open>
  \<open>keeps\<close>: the attributes that only \<^verbatim>\<open>__init__\<close> assigns are unchanged.
  \<open>same_cache\<close>: the client cache and the constructed clients are unchanged.
  \<open>drain_frame\<close>: what the drain leaves alone.
  \<open>sched_inv\<close>: without an event loop nothing was ever submitted or recorded, and an
  event loop exists only in asynchronous mode.
\<close>

definition keeps :: "manager \<Rightarrow> manager \<Rightarrow> bool" where
  "keeps m m' = (async_loop m' = async_loop m \<and> async_mode m' = async_mode m
                 \<and> thread_pool m' = thread_pool m \<and> tmp_local_folder m' = tmp_local_folder m)"

definition same_cache :: "world \<Rightarrow> world \<Rightarrow> bool" where
  "same_cache w w' = (CLI_DICT w' = CLI_DICT w \<and> clients w' = clients w)"

definition drain_frame :: "world \<Rightarrow> manager \<Rightarrow> world \<Rightarrow> manager \<Rightarrow> bool" where
  "drain_frame w m w' m' =
     (keeps m m' \<and> same_cache w w'
      \<and> to_be_del_files m' = to_be_del_files m \<and> upload_count m' = upload_count m
      \<and> has_warning m' = has_warning m
      \<and> nodes w' = nodes w \<and> remove_fault w' = remove_fault w
      \<and> rank_for_log w' = rank_for_log w)"

definition sched_inv :: "manager \<Rightarrow> bool" where
  "sched_inv m =
     ((async_loop m = None \<longrightarrow> async_stack m = [] \<and> exception_list m = [])
      \<and> (async_loop m \<noteq> None \<longrightarrow> async_mode m))"

text \<open>
  The cache key of a client object and of a resolved path: the backend tag for the local
  backend, the tag, a colon and the endpoint URL for the remote one. \<open>cache_inv\<close>: every
  entry of \<open>CLI_DICT\<close> refers to a constructed client with that key, and every
  constructed client is the entry of its key. \<open>cache_mono\<close>: entries and clients are
  only ever added.
\<close>

definition cache_key :: "client \<Rightarrow> string" where
  "cache_key c = (case c of LocalClient \<Rightarrow> ''local'' | Boto3Client url \<Rightarrow> ''boto3:'' @ url)"

definition meta_key :: "meta \<Rightarrow> string" where
  "meta_key mt = (case mt of LocalMeta l \<Rightarrow> ''local'' | Boto3Meta b \<Rightarrow> ''boto3:'' @ endpoint b)"

definition meta_client :: "meta \<Rightarrow> nat option" where
  "meta_client mt = (case mt of LocalMeta l \<Rightarrow> l_client l | Boto3Meta b \<Rightarrow> b_client b)"

definition cache_inv :: "world \<Rightarrow> bool" where
  "cache_inv w =
     ((\<forall>k r. CLI_DICT w k = Some r \<longrightarrow> r < length (clients w) \<and> cache_key (clients w ! r) = k)
      \<and> (\<forall>i. i < length (clients w) \<longrightarrow> CLI_DICT w (cache_key (clients w ! i)) = Some i))"

definition cache_mono :: "world \<Rightarrow> world \<Rightarrow> bool" where
  "cache_mono w w' =
     ((\<forall>k r. CLI_DICT w k = Some r \<longrightarrow> CLI_DICT w' k = Some r)
      \<and> take (length (clients w)) (clients w') = clients w)"

text \<open>What every call does to the manager and to the cache: it keeps the attributes of
  the construction and the scheduler invariant, and it keeps the cache invariant while
  only adding to the cache.\<close>

definition mgr_ok :: "manager \<Rightarrow> manager \<Rightarrow> bool" where
  "mgr_ok m m' = (keeps m m' \<and> (sched_inv m \<longrightarrow> sched_inv m'))"

definition cache_ok :: "world \<Rightarrow> world \<Rightarrow> bool" where
  "cache_ok w w' = (cache_inv w \<longrightarrow> cache_inv w' \<and> cache_mono w w')"

text \<open>The manager \<^verbatim>\<open>__init__\<close> leaves when it skips its \<^verbatim>\<open>if\<close> block: the attributes
  \<^verbatim>\<open>_async_loop\<close> and \<^verbatim>\<open>_thread_pool\<close> were never assigned.\<close>

definition plain_manager :: "string \<Rightarrow> bool \<Rightarrow> manager" where
  "plain_manager tmp async =
     \<lparr> exception_list = [], to_be_del_files = [], async_stack = [], upload_count = 0,
       tmp_local_folder = tmp, async_mode = async, has_warning = False,
       async_loop = None, thread_pool = None \<rparr>"

text \<open>\<open>same_statvfs\<close>: the free space of the mount is unchanged.\<close>

definition same_statvfs :: "world \<Rightarrow> world \<Rightarrow> bool" where
  "same_statvfs w w' = (f_bavail w' = f_bavail w \<and> f_bsize w' = f_bsize w)"

section \<open>Concrete processes used by the closed theorems\<close>

text \<open>
  A machine with the shared-memory mount and one checkpoint directory, 50 GiB free on
  the mount (\<open>13107200\<close> blocks of \<open>4096\<close> bytes), both credentials set, no proxy.
\<close>

definition demo_world :: world where
  "demo_world =
     \<lparr> CLI_DICT = Map.empty, clients = [],
       nodes = [(''/dev/shm'', Dir), (''/ckpt'', Dir), (''/ckpt/5'', File)],
       unreadable = [], unwritable = [], foreign = [], remove_fault = Map.empty,
       f_bavail = 13107200, f_bsize = 4096,
       proxy_in_environ = False, s3_keys_in_environ = True, rank_for_log = True,
       current_time = ''Nov03_17-28-00'', pid = ''4242'', log = [] \<rparr>"

text \<open>The manager that \<^verbatim>\<open>StorageManager(True, "/dev/shm/test/", True, 8)\<close> leaves.\<close>

definition ready_manager :: manager where
  "ready_manager =
     \<lparr> exception_list = [], to_be_del_files = [], async_stack = [], upload_count = 0,
       tmp_local_folder = ''/dev/shm/test/'', async_mode = True, has_warning = False,
       async_loop = Some EventLoop, thread_pool = Some 8 \<rparr>"

text \<open>The machine after that construction: the temp directory exists.\<close>

definition ready_world :: world where
  "ready_world = demo_world\<lparr>nodes := nodes demo_world @ [(''/dev/shm/test'', Dir)]\<rparr>"



text \<open>Resolutions at process start: an endpoint, then another endpoint, then the
  first endpoint again with another bucket and key.\<close>

definition first_endpoint :: string where
  "first_endpoint = ''boto3:s3://ckpt.10.0.0.1/run/1''"

definition other_endpoint :: string where
  "other_endpoint = ''boto3:s3://ckpt.10.0.0.2/run/1''"

definition first_endpoint_again :: string where
  "first_endpoint_again = ''boto3:s3://logs.10.0.0.1/run/2''"

definition meta_first :: meta where
  "meta_first =
     Boto3Meta \<lparr> b_is_async = True, b_client = Some 0, bucket_name = ''ckpt'',
                 endpoint = ''http://10.0.0.1:80'', file_path = ''run/1'',
                 b_async_upload_fn = Boto3Client_async_upload_fileobj,
                 local_nvme_path = ''/dev/shm/test/1-Nov03_17-28-00-4242.tmpfile'' \<rparr>"

definition meta_other :: meta where
  "meta_other =
     Boto3Meta \<lparr> b_is_async = True, b_client = Some 1, bucket_name = ''ckpt'',
                 endpoint = ''http://10.0.0.2:80'', file_path = ''run/1'',
                 b_async_upload_fn = Boto3Client_async_upload_fileobj,
                 local_nvme_path = ''/dev/shm/test/1-Nov03_17-28-00-4242.tmpfile'' \<rparr>"

definition meta_again :: meta where
  "meta_again =
     Boto3Meta \<lparr> b_is_async = True, b_client = Some 0, bucket_name = ''logs'',
                 endpoint = ''http://10.0.0.1:80'', file_path = ''run/2'',
                 b_async_upload_fn = Boto3Client_async_upload_fileobj,
                 local_nvme_path = ''/dev/shm/test/2-Nov03_17-28-00-4242.tmpfile'' \<rparr>"

definition world_first :: world where
  "world_first = fst (snd (get_client demo_world ready_manager first_endpoint))"

definition state_other :: "world \<times> manager" where
  "state_other = run (world_first, ready_manager) [Call_get_client other_endpoint]"

text \<open>Two asynchronous saves to the remote store; the upload of the second one fails
  in its worker thread.\<close>

definition upload_error :: error where
  "upload_error = RuntimeError ''Boto3 Network Error''"

definition two_saves :: "call list" where
  "two_saves =
     [Call_save ''boto3:s3://ckpt.10.0.0.1/run/1'' None None Finished,
      Call_save ''boto3:s3://ckpt.10.0.0.1/run/2'' None None (Failed upload_error)]"

definition after_two_saves :: "world \<times> manager" where
  "after_two_saves = run (ready_world, ready_manager) two_saves"

definition tmp1 :: string where
  "tmp1 = ''/dev/shm/test/1-Nov03_17-28-00-4242.tmpfile''"

definition tmp2 :: string where
  "tmp2 = ''/dev/shm/test/2-Nov03_17-28-00-4242.tmpfile''"



section \<open>Notions of the specification used to state what does hold\<close>

text \<open>The final path segment of an object key, in the words of the specification: the
  last of the parts between slashes.\<close>

definition final_segment :: "string \<Rightarrow> string" where
  "final_segment k = last (split_sep CHR ''/'' k)"

text \<open>The location of a resolved remote path written back as \<^verbatim>\<open>bucket.endpoint/key\<close>,
  the endpoint without the \<^verbatim>\<open>http://\<close> and \<^verbatim>\<open>:80\<close> that \<^verbatim>\<open>get_boto3_meta\<close> adds.\<close>

definition reserialize :: "Boto3MetaInfo \<Rightarrow> string" where
  "reserialize b =
     bucket_name b @ ''.'' @ take (length (endpoint b) - 10) (drop 7 (endpoint b))
       @ ''/'' @ file_path b"

section \<open>Evaluation and frame lemmas\<close>

lemmas os_defs =
  os_path_exists_def os_path_isdir_def lookup_node_def norm_path_def os_access_W_def
  os_access_R_def unlink_def os_remove_def os_makedirs_def os_listdir_def child_name_def
  os_chmod_rwx_def os_path_dirname_def os_path_join_def startswith_def endswith_def
  List.map_filter_def logger_def



lemma keeps_refl [simp]: "keeps m m"
  by (simp add: keeps_def)

lemma keeps_trans: "keeps m m1 \<Longrightarrow> keeps m1 m2 \<Longrightarrow> keeps m m2"
  by (simp add: keeps_def)

lemma same_cache_refl [simp]: "same_cache w w"
  by (simp add: same_cache_def)

lemma same_cache_trans: "same_cache w w1 \<Longrightarrow> same_cache w1 w2 \<Longrightarrow> same_cache w w2"
  by (simp add: same_cache_def)

lemma same_cache_logger [simp]: "same_cache w (logger ev w)"
  by (simp add: same_cache_def logger_def)

lemma drain_frame_refl [simp]: "drain_frame w m w m"
  by (simp add: drain_frame_def)

lemma drain_frame_trans:
  "drain_frame w m w1 m1 \<Longrightarrow> drain_frame w1 m1 w2 m2 \<Longrightarrow> drain_frame w m w2 m2"
  by (simp add: drain_frame_def keeps_def same_cache_def)

lemma drain_frame_record: "drain_frame w m (logger ev w) (m\<lparr>exception_list := xs\<rparr>)"
  by (simp add: drain_frame_def keeps_def same_cache_def logger_def)

lemma sync_loop_frame:
  "sync_loop w m cs = (r, w', m') \<Longrightarrow> drain_frame w m w' m' \<and> async_stack m' = async_stack m"
proof (induction cs arbitrary: w m)
  case Nil
  then show ?case by simp
next
  case (Cons c cs)
  show ?case
  proof (cases c)
    case (Inr x)
    with Cons.prems have "sync_loop w m cs = (r, w', m')" by simp
    then show ?thesis by (rule Cons.IH)
  next
    case (Inl e)
    show ?thesis
    proof (cases "e = InvalidStateError")
      case True
      with Cons.prems Inl have "sync_loop w m cs = (r, w', m')" by simp
      then show ?thesis by (rule Cons.IH)
    next
      case False
      note ne = this
      show ?thesis
      proof (cases "is_Exception e")
        case False
        with Cons.prems Inl ne have "w' = w \<and> m' = m" by simp
        then show ?thesis by simp
      next
        case True
        show ?thesis
        proof (cases "length (exception_list m) < length (to_be_del_files m)")
          case False
          with Cons.prems Inl ne True
          have "w' = w \<and> m' = m\<lparr>exception_list := exception_list m @ [(e, length (exception_list m))]\<rparr>"
            by (simp add: Let_def)
          then show ?thesis by (simp add: drain_frame_def keeps_def)
        next
          case lt: True
          from Cons.prems Inl ne True lt
          have "sync_loop (logger (Log_upload_failed (to_be_del_files m ! length (exception_list m)) e) w)
                  (m\<lparr>exception_list := exception_list m @ [(e, length (exception_list m))]\<rparr>) cs
                = (r, w', m')"
            by (simp add: Let_def)
          from Cons.IH [OF this] drain_frame_record [of w m] show ?thesis
            by (auto intro: drain_frame_trans)
        qed
      qed
    qed
  qed
qed

lemma sync_tasks_frame:
  assumes "sync_tasks w m = (r, w', m')"
  shows "drain_frame w m w' m'" and "r = Inr u \<Longrightarrow> async_stack m' = []"
proof -
  show "drain_frame w m w' m'"
  proof (cases "async_stack m = []")
    case True
    with assms show ?thesis by (simp add: sync_tasks_def)
  next
    case False
    obtain r1 w1 m1 where l: "sync_loop w m (map task_exception (async_stack m)) = (r1, w1, m1)"
      by (cases "sync_loop w m (map task_exception (async_stack m))") auto
    from sync_loop_frame [OF l] have f: "drain_frame w m w1 m1" by simp
    from assms False l have "w' = w1 \<and> (m' = m1 \<or> m' = m1\<lparr>async_stack := []\<rparr>)"
      by (cases r1) (auto simp: sync_tasks_def)
    with f show ?thesis by (auto simp: drain_frame_def keeps_def)
  qed
  show "r = Inr u \<Longrightarrow> async_stack m' = []"
  proof (cases "async_stack m = []")
    case True
    with assms show ?thesis by (simp add: sync_tasks_def)
  next
    case False
    assume "r = Inr u"
    obtain r1 w1 m1 where l: "sync_loop w m (map task_exception (async_stack m)) = (r1, w1, m1)"
      by (cases "sync_loop w m (map task_exception (async_stack m))") auto
    from assms False l \<open>r = Inr u\<close> show ?thesis
      by (cases r1) (auto simp: sync_tasks_def)
  qed
qed

lemma os_remove_world: "os_remove w p = (r, w') \<Longrightarrow> w' = w \<or> (r = Inr () \<and> w' = unlink p w)"
  by (auto simp: os_remove_def split: option.splits node.splits)

lemma unlink_fields [simp]:
  "CLI_DICT (unlink p w) = CLI_DICT w" "clients (unlink p w) = clients w"
  "remove_fault (unlink p w) = remove_fault w" "rank_for_log (unlink p w) = rank_for_log w"
  "log (unlink p w) = log w"
  by (simp_all add: unlink_def)

lemma del_tmp_folder_cache:
  "del_tmp_folder w fps = (r, w') \<Longrightarrow>
     same_cache w w' \<and> rank_for_log w' = rank_for_log w \<and> remove_fault w' = remove_fault w"
proof (induction fps arbitrary: w)
  case Nil
  then show ?case by simp
next
  case (Cons fp fps)
  obtain r1 w1 where o: "os_remove w fp = (r1, w1)"
    by (cases "os_remove w fp") auto
  from os_remove_world [OF o]
  have s: "same_cache w w1 \<and> rank_for_log w1 = rank_for_log w \<and> remove_fault w1 = remove_fault w"
    by (auto simp: same_cache_def)
  show ?case
  proof (cases r1)
    case (Inr u)
    with Cons.prems o have "del_tmp_folder w1 fps = (r, w')" by simp
    from Cons.IH [OF this] s show ?thesis by (auto simp: same_cache_def)
  next
    case (Inl e)
    show ?thesis
    proof (cases "e = FileNotFoundError")
      case True
      with Cons.prems o Inl have "del_tmp_folder w1 fps = (r, w')" by simp
      from Cons.IH [OF this] s show ?thesis by (auto simp: same_cache_def)
    next
      case False
      note nf = this
      show ?thesis
      proof (cases "e = SystemError")
        case True
        with Cons.prems o Inl nf
        have "del_tmp_folder (logger (Log_delete_failed fp e) w1) fps = (r, w')" by simp
        from Cons.IH [OF this] s show ?thesis by (auto simp: same_cache_def logger_def)
      next
        case False
        with Cons.prems o Inl nf have "w' = w1" by simp
        with s show ?thesis by simp
      qed
    qed
  qed
qed

subsection \<open>The barrier, case by case\<close>

lemma wait_sync_mode: "\<not> async_mode m \<Longrightarrow> wait w m = (Inr (), w, m)"
  by (simp add: wait_def)

lemma wait_no_loop:
  "async_mode m \<Longrightarrow> async_loop m = None \<Longrightarrow>
   wait w m = (Inl (AttributeError ''_async_loop''), w, m)"
  by (simp add: wait_def)

lemma wait_drain_error:
  "async_mode m \<Longrightarrow> async_loop m = Some lp \<Longrightarrow> sync_tasks w m = (Inl e, w1, m1) \<Longrightarrow>
   wait w m = (Inl e, w1, m1)"
  by (simp add: wait_def truthy_def)

lemma wait_records:
  "async_mode m \<Longrightarrow> async_loop m = Some lp \<Longrightarrow> sync_tasks w m = (Inr u, w1, m1) \<Longrightarrow>
   exception_list m1 \<noteq> [] \<Longrightarrow>
   wait w m = (Inl (TypeError ''list indices must be integers or slices''), w1, m1)"
  by (cases "exception_list m1") (auto simp: wait_def truthy_def getitem_by_error_def)

lemma wait_remove_error:
  "async_mode m \<Longrightarrow> async_loop m = Some lp \<Longrightarrow> sync_tasks w m = (Inr u, w1, m1) \<Longrightarrow>
   exception_list m1 = [] \<Longrightarrow> del_tmp_folder w1 (to_be_del_files m1) = (Inl e, w2) \<Longrightarrow>
   wait w m = (Inl e, w2, m1)"
  by (simp add: wait_def truthy_def)

lemma wait_done:
  "async_mode m \<Longrightarrow> async_loop m = Some lp \<Longrightarrow> sync_tasks w m = (Inr u, w1, m1) \<Longrightarrow>
   exception_list m1 = [] \<Longrightarrow> del_tmp_folder w1 (to_be_del_files m1) = (Inr u', w2) \<Longrightarrow>
   wait w m =
     (if rank_for_log w2
      then (Inr (), logger Log_all_uploads_succeeded w2,
            m1\<lparr>exception_list := [], to_be_del_files := [], upload_count := upload_count m1 + 1\<rparr>)
      else (Inr (), w2, m1\<lparr>exception_list := [], to_be_del_files := []\<rparr>))"
  by (simp add: wait_def truthy_def Let_def)

lemma wait_cases [case_names sync_mode no_loop drain_error records remove_error cleaned]:
  assumes "\<not> async_mode m \<Longrightarrow> wait w m = (Inr (), w, m) \<Longrightarrow> P"
    and "async_mode m \<Longrightarrow> async_loop m = None \<Longrightarrow>
           wait w m = (Inl (AttributeError ''_async_loop''), w, m) \<Longrightarrow> P"
    and "\<And>lp e w1 m1. async_mode m \<Longrightarrow> async_loop m = Some lp \<Longrightarrow>
           sync_tasks w m = (Inl e, w1, m1) \<Longrightarrow> wait w m = (Inl e, w1, m1) \<Longrightarrow> P"
    and "\<And>lp w1 m1. async_mode m \<Longrightarrow> async_loop m = Some lp \<Longrightarrow>
           sync_tasks w m = (Inr (), w1, m1) \<Longrightarrow> exception_list m1 \<noteq> [] \<Longrightarrow>
           wait w m = (Inl (TypeError ''list indices must be integers or slices''), w1, m1) \<Longrightarrow> P"
    and "\<And>lp e w1 m1 w2. async_mode m \<Longrightarrow> async_loop m = Some lp \<Longrightarrow>
           sync_tasks w m = (Inr (), w1, m1) \<Longrightarrow> exception_list m1 = [] \<Longrightarrow>
           del_tmp_folder w1 (to_be_del_files m1) = (Inl e, w2) \<Longrightarrow>
           wait w m = (Inl e, w2, m1) \<Longrightarrow> P"
    and "\<And>lp w1 m1 w2. async_mode m \<Longrightarrow> async_loop m = Some lp \<Longrightarrow>
           sync_tasks w m = (Inr (), w1, m1) \<Longrightarrow> exception_list m1 = [] \<Longrightarrow>
           del_tmp_folder w1 (to_be_del_files m1) = (Inr (), w2) \<Longrightarrow>
           wait w m =
             (if rank_for_log w2
              then (Inr (), logger Log_all_uploads_succeeded w2,
                    m1\<lparr>exception_list := [], to_be_del_files := [],
                       upload_count := upload_count m1 + 1\<rparr>)
              else (Inr (), w2, m1\<lparr>exception_list := [], to_be_del_files := []\<rparr>)) \<Longrightarrow> P"
  shows P
proof (cases "async_mode m")
  case False
  with assms(1) wait_sync_mode show ?thesis by blast
next
  case am: True
  show ?thesis
  proof (cases "async_loop m")
    case None
    with am assms(2) wait_no_loop show ?thesis by blast
  next
    case (Some lp)
    obtain r1 w1 m1 where s: "sync_tasks w m = (r1, w1, m1)"
      by (cases "sync_tasks w m") auto
    show ?thesis
    proof (cases r1)
      case (Inl e)
      with am Some s assms(3) wait_drain_error show ?thesis by blast
    next
      case (Inr u)
      with s have s': "sync_tasks w m = (Inr (), w1, m1)" by simp
      show ?thesis
      proof (cases "exception_list m1 = []")
        case False
        with am Some s' assms(4) wait_records show ?thesis by blast
      next
        case True
        obtain r2 w2 where d: "del_tmp_folder w1 (to_be_del_files m1) = (r2, w2)"
          by (cases "del_tmp_folder w1 (to_be_del_files m1)") auto
        show ?thesis
        proof (cases r2)
          case (Inl e)
          with am Some s' True d assms(5) wait_remove_error show ?thesis by blast
        next
          case (Inr u')
          with d have d': "del_tmp_folder w1 (to_be_del_files m1) = (Inr (), w2)" by simp
          from am Some s' True d' show ?thesis
            by (rule assms(6)) (rule wait_done [OF am Some s' True d'])
        qed
      qed
    qed
  qed
qed

lemma wait_keeps: "wait w m = (r, w', m') \<Longrightarrow> keeps m m' \<and> same_cache w w'"
proof (cases rule: wait_cases [of m w])
  case sync_mode
  assume "wait w m = (r, w', m')"
  with sync_mode show ?thesis by simp
next
  case no_loop
  assume "wait w m = (r, w', m')"
  with no_loop show ?thesis by simp
next
  case (drain_error lp e w1 m1)
  assume "wait w m = (r, w', m')"
  with drain_error sync_tasks_frame(1) [OF drain_error(3)] show ?thesis
    by (simp add: drain_frame_def)
next
  case (records lp w1 m1)
  assume "wait w m = (r, w', m')"
  with records sync_tasks_frame(1) [OF records(3)] show ?thesis
    by (simp add: drain_frame_def)
next
  case (remove_error lp e w1 m1 w2)
  assume "wait w m = (r, w', m')"
  with remove_error sync_tasks_frame(1) [OF remove_error(3)]
    del_tmp_folder_cache [OF remove_error(5)]
  show ?thesis
    by (auto simp: drain_frame_def intro: same_cache_trans)
next
  case (cleaned lp w1 m1 w2)
  assume "wait w m = (r, w', m')"
  with cleaned sync_tasks_frame(1) [OF cleaned(3)] del_tmp_folder_cache [OF cleaned(5)]
  show ?thesis
    by (auto simp: drain_frame_def keeps_def same_cache_def logger_def split: if_splits)
qed

subsection \<open>The client cache\<close>

lemma cache_mono_refl [simp]: "cache_mono w w"
  by (simp add: cache_mono_def)

lemma cache_mono_trans:
  assumes a: "cache_mono w w1" and b: "cache_mono w1 w2"
  shows "cache_mono w w2"
proof -
  from a have "length (take (length (clients w)) (clients w1)) = length (clients w)"
    by (simp add: cache_mono_def)
  then have l1: "length (clients w) \<le> length (clients w1)"
    by simp
  have "take (length (clients w)) (clients w2)
        = take (length (clients w)) (take (length (clients w1)) (clients w2))"
    using l1 by (simp add: min_def)
  also have "\<dots> = clients w"
    using a b by (simp add: cache_mono_def)
  finally show ?thesis
    using a b by (simp add: cache_mono_def)
qed

lemma same_cache_inv: "same_cache w w' \<Longrightarrow> cache_inv w \<Longrightarrow> cache_inv w'"
  by (simp add: same_cache_def cache_inv_def)

lemma same_cache_mono: "same_cache w w' \<Longrightarrow> cache_mono w w'"
  by (simp add: same_cache_def cache_mono_def)

lemma cached_client_hit:
  "CLI_DICT w k = Some r \<Longrightarrow> cached_client w b k a = (Inr r, w)"
  by (simp add: cached_client_def)

lemma cached_client_inv:
  assumes inv: "cache_inv w"
    and fits: "\<And>c. BACKEND_INIT_METHOD w b a = Inr c \<Longrightarrow> cache_key c = k"
    and res: "cached_client w b k a = (r, w')"
  shows "cache_inv w' \<and> cache_mono w w' \<and> (\<forall>n. r = Inr n \<longrightarrow> CLI_DICT w' k = Some n)"
proof (cases "CLI_DICT w k")
  case (Some n)
  with res have "r = Inr n \<and> w' = w" by (simp add: cached_client_def)
  with inv Some show ?thesis by simp
next
  case None
  show ?thesis
  proof (cases "BACKEND_INIT_METHOD w b a")
    case (Inl e)
    with None res have "r = Inl e \<and> w' = w" by (simp add: cached_client_def)
    with inv show ?thesis by simp
  next
    case (Inr c)
    from fits [OF Inr] have ck: "cache_key c = k" .
    from None Inr res
    have r: "r = Inr (length (clients w))"
      and w': "w' = w\<lparr>clients := clients w @ [c],
                      CLI_DICT := (CLI_DICT w)(k \<mapsto> length (clients w))\<rparr>"
      by (simp_all add: cached_client_def)
    have mono: "cache_mono w w'"
      using None by (auto simp: cache_mono_def w')
    have cw: "clients w' = clients w @ [c]"
      and dw: "CLI_DICT w' = (CLI_DICT w)(k \<mapsto> length (clients w))"
      by (simp_all add: w')
    have p1: "n < length (clients w') \<and> cache_key (clients w' ! n) = k'"
      if h: "CLI_DICT w' k' = Some n" for k' n
    proof (cases "k' = k")
      case True
      with h dw have "n = length (clients w)" by simp
      with True ck cw show ?thesis by simp
    next
      case False
      with h dw have "CLI_DICT w k' = Some n" by simp
      with inv have "n < length (clients w) \<and> cache_key (clients w ! n) = k'"
        unfolding cache_inv_def by blast
      with cw show ?thesis by (simp add: nth_append)
    qed
    have p2: "CLI_DICT w' (cache_key (clients w' ! i)) = Some i"
      if h: "i < length (clients w')" for i
    proof (cases "i < length (clients w)")
      case True
      with inv have e: "CLI_DICT w (cache_key (clients w ! i)) = Some i"
        unfolding cache_inv_def by blast
      with None have "cache_key (clients w ! i) \<noteq> k" by auto
      with e True cw dw show ?thesis by (simp add: nth_append)
    next
      case False
      with h cw have "i = length (clients w)" by simp
      with cw dw ck show ?thesis by simp
    qed
    from p1 p2 have inv': "cache_inv w'"
      unfolding cache_inv_def by blast
    from inv' mono r show ?thesis by (simp add: w')
  qed
qed

subsection \<open>\<^verbatim>\<open>_get_client\<close>, case by case\<close>

lemma split_first_shape:
  "split_first c s = [s] \<or> (\<exists>a b. split_first c s = [a, b])"
  by (simp add: split_first_def)

lemma get_client_no_prefix:
  "split_first CHR '':'' p = [p] \<Longrightarrow>
   get_client w m p = (Inl (AttributeError ''is not startwith backend prefix''), w, m)"
  by (simp add: get_client_def)

lemma get_client_local:
  "split_first CHR '':'' p = [''local'', p'] \<Longrightarrow>
   get_client w m p =
     (case get_local_meta p' of
        Inl e \<Rightarrow> (Inl e, w, m)
      | Inr mi \<Rightarrow>
          (case cached_client w ''local'' ''local'' None of
             (Inl e, w') \<Rightarrow> (Inl e, w', m)
           | (Inr r, w') \<Rightarrow> (Inr (LocalMeta (mi\<lparr>l_client := Some r\<rparr>)), w', m)))"
  by (simp add: get_client_def)

lemma get_client_boto3:
  "split_first CHR '':'' p = [''boto3'', p'] \<Longrightarrow>
   get_client w m p =
     (case get_boto3_meta (current_time w) (pid w) p' (tmp_local_folder m) (async_mode m) of
        Inl e \<Rightarrow> (Inl e, w, m)
      | Inr mi \<Rightarrow>
          (case cached_client (fst (proxy_warning w m)) ''boto3'' (''boto3:'' @ endpoint mi)
                  (Some (endpoint mi)) of
             (Inl e, w') \<Rightarrow> (Inl e, w', snd (proxy_warning w m))
           | (Inr r, w') \<Rightarrow>
               (Inr (Boto3Meta (mi\<lparr>b_client := Some r\<rparr>)), w', snd (proxy_warning w m))))"
  by (simp add: get_client_def split: sum.split prod.split)

lemma get_client_unknown:
  "split_first CHR '':'' p = [b, p'] \<Longrightarrow> b \<noteq> ''local'' \<Longrightarrow> b \<noteq> ''boto3'' \<Longrightarrow>
   get_client w m p = (Inl (AssertionError ''Unkown backend''), w, m)"
  by (simp add: get_client_def)

lemma proxy_warning_manager:
  "snd (proxy_warning w m) = m \<or> snd (proxy_warning w m) = m\<lparr>has_warning := True\<rparr>"
  by (simp add: proxy_warning_def)

lemma proxy_warning_world: "same_cache w (fst (proxy_warning w m))"
  by (simp add: proxy_warning_def)

lemma proxy_warning_env [simp]:
  "s3_keys_in_environ (fst (proxy_warning w m)) = s3_keys_in_environ w"
  by (simp add: proxy_warning_def logger_def)

lemma get_client_manager:
  assumes "get_client w m p = (r, w', m')"
  shows "m' = m \<or> m' = m\<lparr>has_warning := True\<rparr>"
proof -
  from split_first_shape [of "CHR '':''" p]
  consider "split_first CHR '':'' p = [p]"
    | p' where "split_first CHR '':'' p = [''local'', p']"
    | p' where "split_first CHR '':'' p = [''boto3'', p']"
    | b p' where "split_first CHR '':'' p = [b, p']" "b \<noteq> ''local''" "b \<noteq> ''boto3''"
    by blast
  then show ?thesis
  proof cases
    case 1
    from assms get_client_no_prefix [OF 1, of w m] show ?thesis by simp
  next
    case 2
    from assms get_client_local [OF 2, of w m] show ?thesis
      by (auto split: sum.splits prod.splits)
  next
    case 3
    from assms get_client_boto3 [OF 3, of w m] proxy_warning_manager [of w m] show ?thesis
      by (auto split: sum.splits prod.splits)
  next
    case 4
    from assms get_client_unknown [OF 4, of w m] show ?thesis by simp
  qed
qed

lemma get_client_cache:
  assumes inv: "cache_inv w" and res: "get_client w m p = (r, w', m')"
  shows "cache_inv w' \<and> cache_mono w w'
         \<and> (\<forall>mt. r = Inr mt \<longrightarrow> CLI_DICT w' (meta_key mt) = meta_client mt \<and> meta_client mt \<noteq> None)"
proof -
  from split_first_shape [of "CHR '':''" p]
  consider "split_first CHR '':'' p = [p]"
    | p' where "split_first CHR '':'' p = [''local'', p']"
    | p' where "split_first CHR '':'' p = [''boto3'', p']"
    | b p' where "split_first CHR '':'' p = [b, p']" "b \<noteq> ''local''" "b \<noteq> ''boto3''"
    by blast
  then show ?thesis
  proof cases
    case 1
    from res get_client_no_prefix [OF 1, of w m] inv show ?thesis by auto
  next
    case 2
    show ?thesis
    proof (cases "get_local_meta p'")
      case (Inl e)
      with res get_client_local [OF 2, of w m] inv show ?thesis by auto
    next
      case (Inr mi)
      obtain rc wc where c: "cached_client w ''local'' ''local'' None = (rc, wc)"
        by (cases "cached_client w ''local'' ''local'' None") auto
      have "\<And>c. BACKEND_INIT_METHOD w ''local'' None = Inr c \<Longrightarrow> cache_key c = ''local''"
        by (auto simp: BACKEND_INIT_METHOD_def cache_key_def)
      from cached_client_inv [OF inv this c]
      have k: "cache_inv wc" "cache_mono w wc" "\<And>n. rc = Inr n \<Longrightarrow> CLI_DICT wc ''local'' = Some n"
        by auto
      show ?thesis
      proof (cases rc)
        case (Inl e)
        with res get_client_local [OF 2, of w m] Inr c k show ?thesis by auto
      next
        case rr: (Inr n)
        with res get_client_local [OF 2, of w m] Inr c
        have "r = Inr (LocalMeta (mi\<lparr>l_client := Some n\<rparr>))" "w' = wc" by simp_all
        with k rr show ?thesis by (simp add: meta_key_def meta_client_def)
      qed
    qed
  next
    case 3
    let ?g = "get_boto3_meta (current_time w) (pid w) p' (tmp_local_folder m) (async_mode m)"
    show ?thesis
    proof (cases ?g)
      case (Inl e)
      with res get_client_boto3 [OF 3, of w m] inv show ?thesis by auto
    next
      case (Inr mi)
      let ?w0 = "fst (proxy_warning w m)"
      let ?k = "''boto3:'' @ endpoint mi"
      obtain rc wc where c: "cached_client ?w0 ''boto3'' ?k (Some (endpoint mi)) = (rc, wc)"
        by (cases "cached_client ?w0 ''boto3'' ?k (Some (endpoint mi))") auto
      have inv0: "cache_inv ?w0" and mono0: "cache_mono w ?w0"
        using proxy_warning_world [of w m] inv
        by (auto intro: same_cache_inv same_cache_mono)
      have "\<And>c. BACKEND_INIT_METHOD ?w0 ''boto3'' (Some (endpoint mi)) = Inr c \<Longrightarrow> cache_key c = ?k"
        by (auto simp: BACKEND_INIT_METHOD_def cache_key_def split: if_splits)
      from cached_client_inv [OF inv0 this c]
      have k: "cache_inv wc" "cache_mono ?w0 wc" "\<And>n. rc = Inr n \<Longrightarrow> CLI_DICT wc ?k = Some n"
        by auto
      from mono0 k(2) have mono: "cache_mono w wc" by (rule cache_mono_trans)
      show ?thesis
      proof (cases rc)
        case (Inl e)
        with res get_client_boto3 [OF 3, of w m] Inr c k mono show ?thesis by auto
      next
        case rr: (Inr n)
        with res get_client_boto3 [OF 3, of w m] Inr c
        have "r = Inr (Boto3Meta (mi\<lparr>b_client := Some n\<rparr>))" "w' = wc" by simp_all
        with k mono rr show ?thesis by (simp add: meta_key_def meta_client_def)
      qed
    qed
  next
    case 4
    from res get_client_unknown [OF 4, of w m] inv show ?thesis by auto
  qed
qed

subsection \<open>Every call keeps the invariants\<close>

lemma mgr_ok_refl [simp]: "mgr_ok m m"
  by (simp add: mgr_ok_def)

lemma mgr_ok_trans: "mgr_ok m m1 \<Longrightarrow> mgr_ok m1 m2 \<Longrightarrow> mgr_ok m m2"
  by (auto simp: mgr_ok_def intro: keeps_trans)

lemma cache_ok_refl [simp]: "cache_ok w w"
  by (simp add: cache_ok_def)

lemma cache_ok_trans: "cache_ok w w1 \<Longrightarrow> cache_ok w1 w2 \<Longrightarrow> cache_ok w w2"
  by (auto simp: cache_ok_def intro: cache_mono_trans)

lemma same_cache_ok: "same_cache w w' \<Longrightarrow> cache_ok w w'"
  by (simp add: cache_ok_def same_cache_inv same_cache_mono)

lemma mgr_ok_has_warning [simp]: "mgr_ok m (m\<lparr>has_warning := b\<rparr>)"
  by (simp add: mgr_ok_def keeps_def sched_inv_def)

lemma mgr_ok_to_be_del_files [simp]: "mgr_ok m (m\<lparr>to_be_del_files := fs\<rparr>)"
  by (simp add: mgr_ok_def keeps_def sched_inv_def)

lemma mgr_ok_upload_count [simp]: "mgr_ok m (m\<lparr>upload_count := n\<rparr>)"
  by (simp add: mgr_ok_def keeps_def sched_inv_def)

lemma sched_inv_loop: "async_loop m \<noteq> None \<Longrightarrow> async_mode m \<Longrightarrow> sched_inv m"
  by (auto simp: sched_inv_def)

lemma async_executor_ok: "async_executor m fn args st = (r, m') \<Longrightarrow> mgr_ok m m'"
  by (auto simp: async_executor_def mgr_ok_def keeps_def sched_inv_def
      split: option.splits if_splits)

lemma get_client_ok:
  assumes "get_client w m p = (r, w', m')"
  shows "mgr_ok m m'" and "cache_ok w w'"
proof -
  from get_client_manager [OF assms] show "mgr_ok m m'" by auto
  show "cache_ok w w'"
    unfolding cache_ok_def using get_client_cache [OF _ assms] by blast
qed

lemma open_wb_cache: "open_wb w p = (r, w') \<Longrightarrow> same_cache w w'"
  by (auto simp: open_wb_def same_cache_def split: option.splits node.splits)

lemma os_chmod_rwx_cache: "os_chmod_rwx w p = (r, w') \<Longrightarrow> same_cache w w'"
  by (auto simp: os_chmod_rwx_def same_cache_def split: if_splits)

lemma os_makedirs_cache: "os_makedirs w p = (r, w') \<Longrightarrow> same_cache w w'"
  by (auto simp: os_makedirs_def same_cache_def split: option.splits node.splits if_splits)

lemma os_remove_cache: "os_remove w p = (r, w') \<Longrightarrow> same_cache w w'"
  using os_remove_world [of w p r w'] by (auto simp: same_cache_def)

lemma client_sync_upload_fileobj_cache:
  assumes "client_sync_upload_fileobj w args ans = (r, w')"
  shows "same_cache w w'"
proof (cases "client_of w args")
  case (Inl e)
  with assms show ?thesis by (simp add: client_sync_upload_fileobj_def)
next
  case (Inr c)
  show ?thesis
  proof (cases c)
    case (Boto3Client url)
    with assms Inr show ?thesis
      by (auto simp: client_sync_upload_fileobj_def split: list.splits arg.splits option.splits)
  next
    case LocalClient
    show ?thesis
    proof (cases "\<exists>fp extra. tl args = Str fp # extra")
      case False
      with assms Inr LocalClient show ?thesis
        by (auto simp: client_sync_upload_fileobj_def split: list.splits arg.splits)
    next
      case True
      then obtain fp extra where t: "tl args = Str fp # extra" by blast
      let ?mk = "if \<not> os_path_exists w (os_path_dirname fp)
                 then os_makedirs w (os_path_dirname fp) else (Made, w)"
      obtain rm w1 where mk: "?mk = (rm, w1)" by (cases ?mk) auto
      then have s1: "same_cache w w1"
        by (auto dest: os_makedirs_cache split: if_splits)
      from assms Inr LocalClient t mk
      have "w' = w1 \<or> (\<exists>r2. open_wb w1 fp = (r2, w'))"
        by (cases rm; cases ans) (auto simp: client_sync_upload_fileobj_def)
      with s1 show ?thesis by (auto dest: open_wb_cache intro: same_cache_trans)
    qed
  qed
qed

lemma client_delete_obj_cache:
  assumes "client_delete_obj w args = (r, w')"
  shows "same_cache w w'"
proof (cases "client_of w args")
  case (Inl e)
  with assms show ?thesis by (simp add: client_delete_obj_def)
next
  case (Inr c)
  with assms show ?thesis
    by (cases c)
       (auto simp: client_delete_obj_def LocalClient_delete_obj_def
             dest: os_remove_cache split: list.splits arg.splits if_splits)
qed

lemma wait_ok:
  assumes "wait w m = (r, w', m')"
  shows "mgr_ok m m'" and "cache_ok w w'"
proof -
  from wait_keeps [OF assms] have k: "keeps m m'" and c: "same_cache w w'" by simp_all
  from c show "cache_ok w w'" by (rule same_cache_ok)
  have "sched_inv m'" if s: "sched_inv m"
  proof (cases "async_mode m \<and> async_loop m \<noteq> None")
    case True
    with k have "async_loop m' \<noteq> None" "async_mode m'" by (simp_all add: keeps_def)
    then show ?thesis by (rule sched_inv_loop)
  next
    case False
    then have "wait w m = (Inr (), w, m) \<or> wait w m = (Inl (AttributeError ''_async_loop''), w, m)"
      using wait_sync_mode [of m w] wait_no_loop [of m w] by auto
    with assms s show ?thesis by auto
  qed
  with k show "mgr_ok m m'" by (simp add: mgr_ok_def)
qed

lemma save_ok:
  assumes "save w m p a ans st = (r, w', m')"
  shows "mgr_ok m m'" and "cache_ok w w'"
proof -
  obtain rg w1 m1 where g: "get_client w m p = (rg, w1, m1)"
    by (cases "get_client w m p") auto
  note g1 = get_client_ok [OF g]
  have "mgr_ok m1 m' \<and> same_cache w1 w'"
  proof (cases rg)
    case (Inl e)
    with assms g show ?thesis by (simp add: save_def)
  next
    case (Inr mt)
    show ?thesis
    proof (cases "case a of None \<Rightarrow> async_mode m1 | Some b \<Rightarrow> b")
      case False
      obtain r2 w2 where u: "client_sync_upload_fileobj w1 (unpack_meta mt) ans = (r2, w2)"
        by (cases "client_sync_upload_fileobj w1 (unpack_meta mt) ans") auto
      from assms g Inr False u
      have "w' = w2 \<and> (m' = m1 \<or> m' = m1\<lparr>upload_count := upload_count m1 + 1\<rparr>)"
        by (cases r2) (auto simp: save_def)
      with client_sync_upload_fileobj_cache [OF u] show ?thesis by auto
    next
      case True
      show ?thesis
      proof (cases "tmp_local_folder m1 = []")
        case True
        with assms g Inr \<open>case a of None \<Rightarrow> async_mode m1 | Some b \<Rightarrow> b\<close> show ?thesis
          by (simp add: save_def)
      next
        case False
        show ?thesis
        proof (cases mt)
          case (LocalMeta l)
          with assms g Inr True False show ?thesis by (simp add: save_def)
        next
          case (Boto3Meta b)
          let ?m2 = "m1\<lparr>to_be_del_files := to_be_del_files m1 @ [local_nvme_path b]\<rparr>"
          obtain r2 w2 where o: "open_wb w1 (local_nvme_path b) = (r2, w2)"
            by (cases "open_wb w1 (local_nvme_path b)") auto
          note c2 = open_wb_cache [OF o]
          show ?thesis
          proof (cases r2)
            case (Inl e)
            with assms g Inr True False Boto3Meta o have "w' = w2 \<and> m' = ?m2"
              by (simp add: save_def Let_def)
            with c2 show ?thesis by simp
          next
            case r2: (Inr u)
            obtain r3 m3 where x: "async_executor ?m2 (b_async_upload_fn b) (unpack_meta mt) st = (r3, m3)"
              by (cases "async_executor ?m2 (b_async_upload_fn b) (unpack_meta mt) st") auto
            from async_executor_ok [OF x] have m3: "mgr_ok m1 m3"
              by (rule mgr_ok_trans [rotated]) simp
            show ?thesis
            proof (cases r3)
              case (Inl e)
              with assms g Inr True False Boto3Meta o r2 x have "w' = w2 \<and> m' = m3"
                by (simp add: save_def Let_def)
              with c2 m3 show ?thesis by simp
            next
              case r3: (Inr u3)
              obtain r4 w3 where h: "os_chmod_rwx w2 (local_nvme_path b) = (r4, w3)"
                by (cases "os_chmod_rwx w2 (local_nvme_path b)") auto
              from assms g Inr True False Boto3Meta o r2 x r3 h have "w' = w3 \<and> m' = m3"
                by (cases r4) (simp_all add: save_def Let_def)
              with c2 m3 os_chmod_rwx_cache [OF h] show ?thesis
                by (auto intro: same_cache_trans)
            qed
          qed
        qed
      qed
    qed
  qed
  with g1 show "mgr_ok m m'" and "cache_ok w w'"
    by (auto intro: mgr_ok_trans cache_ok_trans same_cache_ok)
qed

lemma resolve_and_load_ok:
  assumes "resolve_and_load w m p ans = (r, w', m')"
  shows "mgr_ok m m'" and "cache_ok w w'"
proof -
  obtain rg w1 m1 where g: "get_client w m p = (rg, w1, m1)"
    by (cases "get_client w m p") auto
  from assms g have "w' = w1 \<and> m' = m1"
    by (cases rg) (simp_all add: resolve_and_load_def)
  with get_client_ok [OF g] show "mgr_ok m m'" and "cache_ok w w'" by simp_all
qed

lemma load_ok:
  assumes "load w m p ans = (r, w', m')"
  shows "mgr_ok m m'" and "cache_ok w w'"
proof -
  obtain rw w1 m1 where wt: "wait w m = (rw, w1, m1)"
    by (cases "wait w m") auto
  note w1 = wait_ok [OF wt]
  have "mgr_ok m1 m' \<and> cache_ok w1 w'"
  proof (cases rw)
    case (Inl e)
    with assms wt show ?thesis by (simp add: load_def)
  next
    case (Inr u)
    with assms wt have "resolve_and_load w1 m1 p ans = (r, w', m')" by (simp add: load_def)
    from resolve_and_load_ok [OF this] show ?thesis by simp
  qed
  with w1 show "mgr_ok m m'" and "cache_ok w w'"
    by (auto intro: mgr_ok_trans cache_ok_trans)
qed

lemma delete_obj_ok:
  assumes "delete_obj w m p = (r, w', m')"
  shows "mgr_ok m m'" and "cache_ok w w'"
proof -
  obtain rg w1 m1 where g: "get_client w m p = (rg, w1, m1)"
    by (cases "get_client w m p") auto
  note g1 = get_client_ok [OF g]
  have "m' = m1 \<and> same_cache w1 w'"
  proof (cases rg)
    case (Inl e)
    with assms g show ?thesis by (simp add: delete_obj_def)
  next
    case (Inr mt)
    obtain r2 w2 where d: "client_delete_obj w1 (unpack_meta mt) = (r2, w2)"
      by (cases "client_delete_obj w1 (unpack_meta mt)") auto
    with assms g Inr have "w' = w2 \<and> m' = m1" by (simp add: delete_obj_def)
    with client_delete_obj_cache [OF d] show ?thesis by simp
  qed
  with g1 show "mgr_ok m m'" and "cache_ok w w'"
    by (auto intro: cache_ok_trans same_cache_ok)
qed

lemma step_ok:
  assumes "step (w, m) c = (w', m')"
  shows "mgr_ok m m'" and "cache_ok w w'"
proof -
  have "mgr_ok m m' \<and> cache_ok w w'"
  proof (cases c)
    case (Call_save p a ans st)
    obtain r where "save w m p a ans st = (r, w', m')"
      using assms Call_save by (cases "save w m p a ans st") auto
    from save_ok [OF this] show ?thesis by simp
  next
    case (Call_load p ans)
    obtain r where "load w m p ans = (r, w', m')"
      using assms Call_load by (cases "load w m p ans") auto
    from load_ok [OF this] show ?thesis by simp
  next
    case Call_wait
    obtain r where "wait w m = (r, w', m')"
      using assms Call_wait by (cases "wait w m") auto
    from wait_ok [OF this] show ?thesis by simp
  next
    case (Call_delete_obj p)
    obtain r where "delete_obj w m p = (r, w', m')"
      using assms Call_delete_obj by (cases "delete_obj w m p") auto
    from delete_obj_ok [OF this] show ?thesis by simp
  next
    case (Call_get_client p)
    obtain r where "get_client w m p = (r, w', m')"
      using assms Call_get_client by (cases "get_client w m p") auto
    from get_client_ok [OF this] show ?thesis by simp
  next
    case (Call_async_executor fn args st)
    obtain r where "async_executor m fn args st = (r, m')" and "w' = w"
      using assms Call_async_executor by (cases "async_executor m fn args st") auto
    with async_executor_ok show ?thesis by auto
  qed
  then show "mgr_ok m m'" and "cache_ok w w'" by simp_all
qed

lemma run_ok:
  "run (w, m) cs = (w', m') \<Longrightarrow> mgr_ok m m' \<and> cache_ok w w'"
proof (induction cs arbitrary: w m)
  case Nil
  then show ?case by (simp add: run_def)
next
  case (Cons c cs)
  obtain w1 m1 where s: "step (w, m) c = (w1, m1)"
    by (cases "step (w, m) c") auto
  with Cons.prems have "run (w1, m1) cs = (w', m')" by (simp add: run_def)
  from Cons.IH [OF this] step_ok [OF s] show ?case
    by (auto intro: mgr_ok_trans cache_ok_trans)
qed



section \<open>Evaluating the concrete processes\<close>

lemmas eval_defs =
  StorageManager_init_def check_tmp_folder_accessibility_def try_delete_tmpfile_def
  get_mount_point_free_size_def float_0_1_def
  get_client_def split_first_def get_boto3_meta_def get_local_meta_def lstrip_def
  boto3_url_match_def is_digit_def get_tmp_file_name_def proxy_warning_def
  cached_client_def BACKEND_INIT_METHOD_def open_wb_def ref_arg_def
  async_executor_def truthy_def save_def load_def resolve_and_load_def delete_obj_def
  client_of_def client_load_def client_sync_upload_fileobj_def client_delete_obj_def
  LocalClient_delete_obj_def wait_def sync_tasks_def task_exception_def is_Exception_def
  getitem_by_error_def run_def Let_def






lemmas resolve_defs =
  get_client_def split_first_def get_boto3_meta_def get_local_meta_def lstrip_def
  boto3_url_match_def is_digit_def get_tmp_file_name_def proxy_warning_def
  cached_client_def BACKEND_INIT_METHOD_def os_path_join_def startswith_def endswith_def
  Let_def

lemma world_first_fields:
  "clients world_first = [Boto3Client ''http://10.0.0.1:80'']"
  "CLI_DICT world_first ''boto3:http://10.0.0.1:80'' = Some 0"
  "CLI_DICT world_first ''boto3:http://10.0.0.2:80'' = None"
  "current_time world_first = ''Nov03_17-28-00''" "pid world_first = ''4242''"
  "proxy_in_environ world_first = False" "s3_keys_in_environ world_first = True"
  by (simp_all add: world_first_def first_endpoint_def resolve_defs demo_world_def
      ready_manager_def)

lemma resolve_first:
  "get_client demo_world ready_manager first_endpoint = (Inr meta_first, world_first, ready_manager)"
  by (simp add: world_first_def meta_first_def first_endpoint_def resolve_defs demo_world_def
      ready_manager_def)

lemma resolve_other:
  "fst (get_client world_first ready_manager other_endpoint) = Inr meta_other"
  by (simp add: world_first_fields meta_other_def other_endpoint_def resolve_defs
      ready_manager_def)

lemma state_other_fields:
  "snd state_other = ready_manager"
  "clients (fst state_other) = [Boto3Client ''http://10.0.0.1:80'', Boto3Client ''http://10.0.0.2:80'']"
  "CLI_DICT (fst state_other) ''boto3:http://10.0.0.1:80'' = Some 0"
  "current_time (fst state_other) = ''Nov03_17-28-00''" "pid (fst state_other) = ''4242''"
  "proxy_in_environ (fst state_other) = False"
  by (simp_all add: state_other_def run_def world_first_fields other_endpoint_def resolve_defs
      ready_manager_def)

lemma resolve_again:
  "fst (get_client (fst state_other) (snd state_other) first_endpoint_again) = Inr meta_again"
  by (simp add: state_other_fields meta_again_def first_endpoint_again_def resolve_defs
      ready_manager_def)

lemma after_two_saves_manager:
  "snd after_two_saves =
     ready_manager
       \<lparr> to_be_del_files := [tmp1, tmp2],
         async_stack :=
           [\<lparr> t_fn = Boto3Client_async_upload_fileobj,
              t_args = [Ref 0, Str ''ckpt'', Str ''run/1'', Str tmp1],
              t_state = Finished \<rparr>,
            \<lparr> t_fn = Boto3Client_async_upload_fileobj,
              t_args = [Ref 0, Str ''ckpt'', Str ''run/2'', Str tmp2],
              t_state = Failed upload_error \<rparr>] \<rparr>"
  by (simp add: after_two_saves_def two_saves_def tmp1_def tmp2_def eval_defs demo_world_def
      ready_world_def ready_manager_def os_defs)

lemma after_two_saves_world:
  "nodes (fst after_two_saves) =
     [(''/dev/shm'', Dir), (''/ckpt'', Dir), (''/ckpt/5'', File), (''/dev/shm/test'', Dir),
      (tmp1, File), (tmp2, File)]"
  "rank_for_log (fst after_two_saves)"
  "remove_fault (fst after_two_saves) = Map.empty"
  "log (fst after_two_saves) = []"
  by (simp_all add: after_two_saves_def two_saves_def tmp1_def tmp2_def eval_defs
      demo_world_def ready_world_def ready_manager_def os_defs)



section \<open>Local delete (C8)\<close>




section \<open>Remote listing (C7)\<close>

text \<open>
  C7: for the remote backend, list(bucket, keyPrefix) returns every object whose key
  matches the prefix across all result pages, each name being the final path segment of
  the key. The loop does visit every page, but it takes element 1 of
  \<^verbatim>\<open>rsplit("/", maxsplit=1)\<close>, which a key without a slash does not have, and it reads
  \<^verbatim>\<open>page["Contents"]\<close>, which a page without matches does not have: a listing with an
  object at the root of the bucket raises \<^verbatim>\<open>IndexError\<close> and an empty listing raises
  \<^verbatim>\<open>KeyError\<close>, where the claim promises the names.
\<close>

theorem Boto3Client_get_fns_root_key:
  "Boto3Client_get_fns [Some [''ckpt/a.pt''], Some [''ckpt.log'']] = Inl IndexError
   \<and> Boto3Client_get_fns [None] = Inl (KeyError ''Contents'')"
  by (simp add: Boto3Client_get_fns_def key_name_def rsplit_last_def)

section \<open>The free-space guard (C2)\<close>

text \<open>The guard in exact arithmetic: it rejects a mount with at most \<open>107374182\<close> free
  bytes (a tenth of a GiB) and accepts every other.\<close>

lemma free_space_guard:
  "(of_nat n / (1024 ^ 3) < float_0_1) = (n \<le> 107374182)"
proof -
  have "(of_nat n / (1024 ^ 3) < float_0_1) = ((of_nat n :: rat) * 33554432 < 3602879701896397)"
    by (simp add: float_0_1_def field_simps)
  also have "\<dots> = (n * 33554432 < 3602879701896397)"
  proof -
    have "((of_nat n :: rat) * 33554432 < 3602879701896397)
        = ((of_nat (n * 33554432) :: rat) < of_nat 3602879701896397)"
      by simp
    also have "\<dots> = (n * 33554432 < 3602879701896397)"
      by (rule of_nat_less_iff)
    finally show ?thesis .
  qed
  also have "\<dots> = (n \<le> 107374182)"
    by arith
  finally show ?thesis .
qed

text \<open>
  C2: construction with saving and asynchronous mode enabled fails with InsufficientSpace
  exactly when the free space on the mount of the temp directory is below 100 GiB. The
  code divides the free bytes by \<open>1024 ^ 3\<close> and compares the quotient with \<open>0.1\<close>,
  while its own log message says "less then 100 GB" and its comment says the unit is TB:
  with 50 GiB free the construction succeeds.
\<close>

theorem init_passes_guard_with_50_GiB:
  "of_nat (f_bavail demo_world * f_bsize demo_world) = (50 * 1024 ^ 3 :: rat)
   \<and> fst (StorageManager_init demo_world True ''/dev/shm/test/'' True 8) = Inr ready_manager"
  by (simp add: StorageManager_init_def demo_world_def ready_manager_def
      check_tmp_folder_accessibility_def try_delete_tmpfile_def get_mount_point_free_size_def
      float_0_1_def os_defs)

section \<open>The scheduler that was never created (C9, C10)\<close>

lemma init_without_scheduler:
  "\<not> (enable_save \<and> async) \<Longrightarrow>
   StorageManager_init w enable_save tmp async n = (Inr (plain_manager tmp async), w)"
  by (auto simp: StorageManager_init_def plain_manager_def Let_def)

lemma async_executor_no_loop:
  "async_loop m = None \<Longrightarrow>
   async_executor m fn args st = (Inl (AttributeError ''_async_loop''), m)"
  by (simp add: async_executor_def)

lemma save_async_no_loop:
  assumes nl: "async_loop m = None"
    and path: "case a of None \<Rightarrow> async_mode m | Some b \<Rightarrow> b"
  shows "\<exists>e. fst (save w m p a ans st) = Inl e"
proof -
  obtain rg w1 m1 where g: "get_client w m p = (rg, w1, m1)"
    by (cases "get_client w m p") auto
  from get_client_manager [OF g] nl path
  have nl1: "async_loop m1 = None" and path1: "case a of None \<Rightarrow> async_mode m1 | Some b \<Rightarrow> b"
    by (auto split: option.splits)
  show ?thesis
  proof (cases rg)
    case (Inl e)
    with g show ?thesis by (simp add: save_def)
  next
    case (Inr mt)
    show ?thesis
    proof (cases "tmp_local_folder m1 = []")
      case True
      with g Inr path1 show ?thesis by (simp add: save_def)
    next
      case False
      show ?thesis
      proof (cases mt)
        case (LocalMeta l)
        with g Inr path1 False show ?thesis by (simp add: save_def)
      next
        case (Boto3Meta b)
        let ?m2 = "m1\<lparr>to_be_del_files := to_be_del_files m1 @ [local_nvme_path b]\<rparr>"
        obtain r2 w2 where o: "open_wb w1 (local_nvme_path b) = (r2, w2)"
          by (cases "open_wb w1 (local_nvme_path b)") auto
        from nl1 have x: "async_executor ?m2 (b_async_upload_fn b) (unpack_meta mt) st
                          = (Inl (AttributeError ''_async_loop''), ?m2)"
          by (simp add: async_executor_no_loop)
        from g Inr path1 False Boto3Meta o x show ?thesis
          by (cases r2) (simp_all add: save_def Let_def)
      qed
    qed
  qed
qed


section \<open>Load after the barrier (C5)\<close>




section \<open>Faults of a manager without scheduler (C10)\<close>

text \<open>
  C10: when the manager is constructed with asynchronous mode enabled but saving
  disabled, the event-loop and thread-pool attributes are never created, so every later
  call to wait and every asynchronous save submission faults on the access to the missing
  attribute: not the no-op return, not the drain, not the NotInitialized branch. Whatever
  calls were made in between, wait and \<^verbatim>\<open>async_executor\<close> raise \<^verbatim>\<open>AttributeError\<close>
  and leave the state as it was, and a save on the asynchronous path never returns
  normally.
\<close>

theorem wait_without_scheduler_faults:
  "StorageManager_init w False tmp True n = (Inr (plain_manager tmp True), w)
   \<and> (case run (w, plain_manager tmp True) cs of
        (w', m') \<Rightarrow>
          wait w' m' = (Inl (AttributeError ''_async_loop''), w', m')
          \<and> async_executor m' fn args st = (Inl (AttributeError ''_async_loop''), m')
          \<and> (\<exists>e. fst (save w' m' p None ans st) = Inl e)
          \<and> (\<exists>e. fst (save w' m' p (Some True) ans st) = Inl e))"
proof -
  obtain w' m' where r: "run (w, plain_manager tmp True) cs = (w', m')"
    by (cases "run (w, plain_manager tmp True) cs") auto
  from run_ok [OF r] have "keeps (plain_manager tmp True) m'"
    by (simp add: mgr_ok_def)
  then have nl: "async_loop m' = None" and am: "async_mode m'"
    by (simp_all add: keeps_def plain_manager_def)
  from nl am have "wait w' m' = (Inl (AttributeError ''_async_loop''), w', m')"
    by (simp add: wait_no_loop)
  moreover from nl have "async_executor m' fn args st = (Inl (AttributeError ''_async_loop''), m')"
    by (rule async_executor_no_loop)
  moreover from nl am have "\<exists>e. fst (save w' m' p None ans st) = Inl e"
    by (intro save_async_no_loop) simp_all
  moreover from nl have "\<exists>e. fst (save w' m' p (Some True) ans st) = Inl e"
    by (intro save_async_no_loop) simp_all
  ultimately show ?thesis
    using r init_without_scheduler [of False True w tmp n] by simp
qed

section \<open>One client per cache key (C6)\<close>

lemma cache_inv_empty: "clients w = [] \<Longrightarrow> CLI_DICT w = Map.empty \<Longrightarrow> cache_inv w"
  by (simp add: cache_inv_def)

lemma cache_inv_unique:
  assumes "cache_inv w" "i < length (clients w)" "j < length (clients w)"
    and "cache_key (clients w ! i) = cache_key (clients w ! j)"
  shows "i = j"
proof -
  from assms(1,2) have a: "CLI_DICT w (cache_key (clients w ! i)) = Some i"
    unfolding cache_inv_def by blast
  from assms(1,3) have b: "CLI_DICT w (cache_key (clients w ! j)) = Some j"
    unfolding cache_inv_def by blast
  have "Some i = CLI_DICT w (cache_key (clients w ! i))" by (rule a [symmetric])
  also have "\<dots> = CLI_DICT w (cache_key (clients w ! j))" by (rule arg_cong [OF assms(4)])
  also have "\<dots> = Some j" by (rule b)
  finally show ?thesis by (rule option.inject [THEN iffD1])
qed

lemma cache_mono_length:
  assumes "cache_mono w w'"
  shows "length (clients w) \<le> length (clients w')"
proof -
  from assms have t: "take (length (clients w)) (clients w') = clients w"
    unfolding cache_mono_def by blast
  have "length (clients w) = length (take (length (clients w)) (clients w'))"
    by (rule arg_cong [OF t [symmetric]])
  also have "\<dots> \<le> length (clients w')"
    by (simp only: length_take min.cobounded1)
  finally show ?thesis .
qed

lemma cache_mono_nth:
  assumes "cache_mono w w'" "r < length (clients w)"
  shows "r < length (clients w') \<and> clients w' ! r = clients w ! r"
proof -
  from assms(1) have t: "take (length (clients w)) (clients w') = clients w"
    unfolding cache_mono_def by blast
  have n: "take (length (clients w)) (clients w') ! r = clients w' ! r"
    using assms(2) by (rule nth_take)
  have "clients w' ! r = take (length (clients w)) (clients w') ! r"
    by (rule n [symmetric])
  also have "\<dots> = clients w ! r"
    by (rule arg_cong [OF t])
  finally have e: "clients w' ! r = clients w ! r" .
  from assms(2) cache_mono_length [OF assms(1)] have "r < length (clients w')"
    by (rule less_le_trans)
  with e show ?thesis by (rule conjI [rotated])
qed

text \<open>
  C6: for the process lifetime at most one client instance exists per distinct cache key,
  the key being the backend tag for the local backend and the tag plus the endpoint URL
  for the remote one; repeated resolutions of one key return the same instance and two
  distinct remote endpoints get independent instances. From a process start with an empty
  cache, after any calls, for a resolution, any further calls and a later resolution:
  the client handed out is the cache entry of the key of the resolved path, it is an
  object constructed with that key and is never replaced, the two resolutions hand out the
  same client exactly when their keys agree, and no two constructed clients share a key.
\<close>

theorem one_client_per_cache_key:
  assumes start: "clients w0 = []" "CLI_DICT w0 = Map.empty"
    and before: "run (w0, m0) cs = (w, m)"
    and first: "get_client w m p = (Inr mt, w1, m1)"
    and between: "run (w1, m1) cs' = (w2, m2)"
    and second: "get_client w2 m2 p' = (Inr mt', w3, m3)"
  shows "(\<exists>r. meta_client mt = Some r \<and> CLI_DICT w1 (meta_key mt) = Some r
              \<and> r < length (clients w1) \<and> cache_key (clients w1 ! r) = meta_key mt
              \<and> r < length (clients w3) \<and> clients w3 ! r = clients w1 ! r)
       \<and> ((meta_client mt = meta_client mt') = (meta_key mt = meta_key mt'))
       \<and> (\<forall>i j. i < length (clients w3) \<and> j < length (clients w3)
                 \<and> cache_key (clients w3 ! i) = cache_key (clients w3 ! j) \<longrightarrow> i = j)"
proof -
  from start have i0: "cache_inv w0" by (rule cache_inv_empty)
  from run_ok [OF before] have "cache_ok w0 w" by (rule conjunct2)
  with i0 have iw: "cache_inv w" unfolding cache_ok_def by blast
  note g1 = get_client_cache [OF iw first]
  from g1 have i1: "cache_inv w1" by (rule conjunct1)
  from g1 have e1: "CLI_DICT w1 (meta_key mt) = meta_client mt" and n1: "meta_client mt \<noteq> None"
    by blast+
  from run_ok [OF between] have "cache_ok w1 w2" by (rule conjunct2)
  with i1 have i2: "cache_inv w2" and m12: "cache_mono w1 w2"
    unfolding cache_ok_def by blast+
  note g2 = get_client_cache [OF i2 second]
  from g2 have i3: "cache_inv w3" by (rule conjunct1)
  from g2 have m23: "cache_mono w2 w3" by blast
  from g2 have e3: "CLI_DICT w3 (meta_key mt') = meta_client mt'"
    and n3: "meta_client mt' \<noteq> None"
    by blast+
  from m12 m23 have m13: "cache_mono w1 w3" by (rule cache_mono_trans)
  from n1 obtain r where r: "meta_client mt = Some r" by blast
  from e1 r have c1: "CLI_DICT w1 (meta_key mt) = Some r" by (rule trans)
  with i1 have b1: "r < length (clients w1)" and k1: "cache_key (clients w1 ! r) = meta_key mt"
    unfolding cache_inv_def by blast+
  from cache_mono_nth [OF m13 b1]
  have b3: "r < length (clients w3)" and s3: "clients w3 ! r = clients w1 ! r" by blast+
  from c1 m13 have c3: "CLI_DICT w3 (meta_key mt) = Some r"
    unfolding cache_mono_def by blast
  from n3 obtain r' where r': "meta_client mt' = Some r'" by blast
  from e3 r' have c3': "CLI_DICT w3 (meta_key mt') = Some r'" by (rule trans)
  with i3 have k3': "cache_key (clients w3 ! r') = meta_key mt'"
    unfolding cache_inv_def by blast
  have same: "(meta_client mt = meta_client mt') = (meta_key mt = meta_key mt')"
  proof
    assume "meta_client mt = meta_client mt'"
    with r r' have "r = r'" by simp
    with k3' have "cache_key (clients w3 ! r) = meta_key mt'" by simp
    moreover from s3 k1 have "cache_key (clients w3 ! r) = meta_key mt" by simp
    ultimately show "meta_key mt = meta_key mt'" by simp
  next
    assume "meta_key mt = meta_key mt'"
    with c3 c3' have "r = r'" by simp
    with r r' show "meta_client mt = meta_client mt'" by simp
  qed
  have uniq: "\<forall>i j. i < length (clients w3) \<and> j < length (clients w3)
                 \<and> cache_key (clients w3 ! i) = cache_key (clients w3 ! j) \<longrightarrow> i = j"
    using cache_inv_unique [OF i3] by blast
  from r c1 b1 k1 b3 s3
  have ex: "\<exists>r. meta_client mt = Some r \<and> CLI_DICT w1 (meta_key mt) = Some r
              \<and> r < length (clients w1) \<and> cache_key (clients w1 ! r) = meta_key mt
              \<and> r < length (clients w3) \<and> clients w3 ! r = clients w1 ! r"
    by (intro exI [of _ r] conjI)
  show ?thesis
    by (rule conjI [OF ex conjI [OF same uniq]])
qed

theorem one_client_per_cache_key_witness:
  "clients demo_world = [] \<and> CLI_DICT demo_world = Map.empty
   \<and> get_client demo_world ready_manager first_endpoint = (Inr meta_first, world_first, ready_manager)
   \<and> fst (get_client world_first ready_manager other_endpoint) = Inr meta_other
   \<and> fst (get_client (fst state_other) (snd state_other) first_endpoint_again) = Inr meta_again
   \<and> meta_key meta_first = meta_key meta_again
   \<and> meta_client meta_first = meta_client meta_again
   \<and> meta_key meta_first \<noteq> meta_key meta_other
   \<and> meta_client meta_first \<noteq> meta_client meta_other"
proof -
  have s: "clients demo_world = []" "CLI_DICT demo_world = Map.empty"
    by (simp_all add: demo_world_def)
  have r0: "run (demo_world, ready_manager) [] = (demo_world, ready_manager)"
    by (simp add: run_def)
  have r1: "run (world_first, ready_manager) [] = (world_first, ready_manager)"
    by (simp add: run_def)
  have r2: "run (world_first, ready_manager) [Call_get_client other_endpoint]
            = (fst state_other, snd state_other)"
    by (simp add: state_other_def)
  obtain wo mo where o: "get_client world_first ready_manager other_endpoint = (Inr meta_other, wo, mo)"
    using resolve_other by (cases "get_client world_first ready_manager other_endpoint") auto
  obtain wa ma where a: "get_client (fst state_other) (snd state_other) first_endpoint_again
                         = (Inr meta_again, wa, ma)"
    using resolve_again
    by (cases "get_client (fst state_other) (snd state_other) first_endpoint_again") auto
  have ka: "meta_key meta_first = meta_key meta_again"
    by (simp add: meta_key_def meta_first_def meta_again_def)
  have ko: "meta_key meta_first \<noteq> meta_key meta_other"
    by (simp add: meta_key_def meta_first_def meta_other_def)
  from one_client_per_cache_key [OF s r0 resolve_first r2 a] ka
  have ca: "meta_client meta_first = meta_client meta_again" by blast
  from one_client_per_cache_key [OF s r0 resolve_first r1 o] ko
  have co: "meta_client meta_first \<noteq> meta_client meta_other" by blast
  from s resolve_first resolve_other resolve_again ka ca ko co show ?thesis by blast
qed

section \<open>Failed uploads at the barrier (C1)\<close>

text \<open>
  C1: for every drain in which at least one asynchronously submitted upload failed, wait
  reports and raises with the temp-file path of the task that failed, the index of each
  Exception Record being the position of the failed task in the tracking list, and the
  success counter is not incremented. After two asynchronous saves of which the second
  upload fails, the code does none of this: \<^verbatim>\<open>task.exception()\<close> returns the exception
  of a finished future, it does not raise it, so \<^verbatim>\<open>_sync_tasks\<close> records nothing and
  wait returns normally, removes both temp files and increments the counter. The last
  three conjuncts follow the handler as written, for a call that does raise: the record gets
  the number of earlier records as index (\<open>0\<close>, the temp file of the first, successful
  save), not the position \<open>1\<close> of the failed task, and wait, given a record, fails with
  \<^verbatim>\<open>TypeError\<close> while formatting its message.
\<close>

theorem failed_upload_passes_wait:
  "to_be_del_files (snd after_two_saves) = [tmp1, tmp2]
   \<and> map t_state (async_stack (snd after_two_saves)) = [Finished, Failed upload_error]
   \<and> fst (wait (fst after_two_saves) (snd after_two_saves)) = Inr ()
   \<and> snd (snd (wait (fst after_two_saves) (snd after_two_saves)))
       = ready_manager\<lparr>upload_count := 1\<rparr>
   \<and> log (fst (snd (wait (fst after_two_saves) (snd after_two_saves))))
       = [Log_all_uploads_succeeded]
   \<and> nodes (fst (snd (wait (fst after_two_saves) (snd after_two_saves))))
       = [(''/dev/shm'', Dir), (''/ckpt'', Dir), (''/ckpt/5'', File), (''/dev/shm/test'', Dir)]
   \<and> snd (snd (sync_loop (fst after_two_saves) (snd after_two_saves)
                  [Inr None, Inl upload_error]))
       = (snd after_two_saves)\<lparr>exception_list := [(upload_error, 0)]\<rparr>
   \<and> log (fst (snd (sync_loop (fst after_two_saves) (snd after_two_saves)
                       [Inr None, Inl upload_error])))
       = [Log_upload_failed tmp1 upload_error]
   \<and> fst (wait (fst after_two_saves)
             ((snd after_two_saves)\<lparr>async_stack := [], exception_list := [(upload_error, 1)]\<rparr>))
       = Inl (TypeError ''list indices must be integers or slices'')"
  by (simp add: after_two_saves_manager after_two_saves_world wait_def sync_tasks_def
      task_exception_def truthy_def is_Exception_def getitem_by_error_def upload_error_def
      tmp1_def tmp2_def os_remove_def lookup_node_def norm_path_def unlink_def logger_def
      ready_manager_def Let_def)

section \<open>Path resolution (C4)\<close>

text \<open>
  C4: for every valid \<^verbatim>\<open>local:\<close> URI the resolver yields the remainder unchanged, and for
  every valid remote URI a bucket, endpoint and key whose re-serialisation as
  \<^verbatim>\<open>bucket.endpoint/key\<close> is the location written in the URI. \<^verbatim>\<open>get_boto3_meta\<close>
  removes the scheme with \<^verbatim>\<open>fp.lstrip("s3://")\<close>, which strips every leading
  \<^verbatim>\<open>s\<close>, \<^verbatim>\<open>3\<close>, \<^verbatim>\<open>:\<close> and \<^verbatim>\<open>/\<close>, not the prefix: the bucket \<^verbatim>\<open>s3data\<close> is resolved
  as \<^verbatim>\<open>data\<close>, and the bucket \<^verbatim>\<open>s3\<close> is rejected as an invalid URL.
\<close>

theorem resolver_strips_bucket_name:
  "fst (get_client demo_world ready_manager ''boto3:s3://s3data.10.0.0.1/ckpt/1'')
     = Inr (Boto3Meta
             \<lparr> b_is_async = True, b_client = Some 0, bucket_name = ''data'',
               endpoint = ''http://10.0.0.1:80'', file_path = ''ckpt/1'',
               b_async_upload_fn = Boto3Client_async_upload_fileobj,
               local_nvme_path = ''/dev/shm/test/1-Nov03_17-28-00-4242.tmpfile'' \<rparr>)
   \<and> fst (get_client demo_world ready_manager ''boto3:s3://s3.10.0.0.1/ckpt/1'')
     = Inl (AssertionError ''is not a valid boto3 url'')"
  by (simp add: resolve_defs demo_world_def ready_manager_def)

section \<open>Cleanup at the barrier (C3)\<close>




section \<open>What does hold of listing and resolution\<close>

lemma split_sep_not_Nil [simp]: "split_sep c s \<noteq> []"
  by (induction s) (auto split: list.splits)

lemma last_split_sep:
  "last (split_sep c s) = rev (takeWhile (\<lambda>x. x \<noteq> c) (rev s))"
proof (induction s)
  case Nil
  then show ?case by simp
next
  case (Cons x xs)
  show ?case
  proof (cases "x = c")
    case True
    then have "last (split_sep c (x # xs)) = last (split_sep c xs)" by simp
    also have "\<dots> = rev (takeWhile (\<lambda>x. x \<noteq> c) (rev xs))" by (rule Cons.IH)
    also have "\<dots> = rev (takeWhile (\<lambda>x. x \<noteq> c) (rev (x # xs)))"
      using True by (simp add: takeWhile_append)
    finally show ?thesis .
  next
    case False
    obtain p ps where s: "split_sep c xs = p # ps"
      by (cases "split_sep c xs") simp_all
    show ?thesis
    proof (cases ps)
      case Nil
      with s Cons.IH have t: "rev (takeWhile (\<lambda>x. x \<noteq> c) (rev xs)) = p" by simp
      then have "takeWhile (\<lambda>x. x \<noteq> c) (rev xs) = rev p" by (metis rev_rev_ident)
      moreover from s Nil have "c \<notin> set xs"
      proof (induction xs arbitrary: p)
        case Nil
        then show ?case by simp
      next
        case (Cons y ys)
        then show ?case by (auto split: if_splits list.splits)
      qed
      ultimately have "rev p = rev xs"
        by (metis (mono_tags, lifting) set_rev takeWhile_eq_all_conv)
      then have "p = xs" by simp
      with s Nil False \<open>c \<notin> set xs\<close> show ?thesis
        by (simp add: takeWhile_append)
    next
      case (Cons q qs)
      with s have "c \<in> set xs"
      proof (induction xs arbitrary: p q qs)
        case Nil
        then show ?case by simp
      next
        case (Cons y ys)
        then show ?case by (auto split: if_splits list.splits)
      qed
      then have "takeWhile (\<lambda>x. x \<noteq> c) (rev xs @ [x]) = takeWhile (\<lambda>x. x \<noteq> c) (rev xs)"
        by (auto simp: takeWhile_append)
      with s Cons Cons.IH False show ?thesis by simp
    qed
  qed
qed

lemma key_name_final_segment:
  "CHR ''/'' \<in> set k \<Longrightarrow> key_name k = Inr (final_segment k)"
  by (simp add: key_name_def rsplit_last_def final_segment_def last_split_sep)

lemma page_names_all:
  "\<forall>k \<in> set ks. CHR ''/'' \<in> set k \<Longrightarrow> page_names acc ks = Inr (acc @ map final_segment ks)"
  by (induction ks arbitrary: acc) (simp_all add: key_name_final_segment)

text \<open>When every page has its \<^verbatim>\<open>Contents\<close> and every key has a slash, the listing is
  the final segments of the keys of all pages, in order.\<close>

lemma pages_names_all:
  "\<forall>pg \<in> set pages. \<exists>ks. pg = Some ks \<and> (\<forall>k \<in> set ks. CHR ''/'' \<in> set k) \<Longrightarrow>
   pages_names acc pages = Inr (acc @ map final_segment (concat (map the pages)))"
proof (induction pages arbitrary: acc)
  case Nil
  then show ?case by simp
next
  case (Cons pg pages)
  then obtain ks where pg: "pg = Some ks" and ks: "\<forall>k \<in> set ks. CHR ''/'' \<in> set k"
    by auto
  from Cons.prems have rest: "\<forall>pg \<in> set pages. \<exists>ks. pg = Some ks \<and> (\<forall>k \<in> set ks. CHR ''/'' \<in> set k)"
    by simp
  from pg page_names_all [OF ks, of acc] Cons.IH [OF rest, of "acc @ map final_segment ks"]
  show ?case by simp
qed

lemma Boto3Client_get_fns_all_pages:
  "\<forall>pg \<in> set pages. \<exists>ks. pg = Some ks \<and> (\<forall>k \<in> set ks. CHR ''/'' \<in> set k) \<Longrightarrow>
   Boto3Client_get_fns pages = Inr (map final_segment (concat (map the pages)))"
  by (simp add: Boto3Client_get_fns_def pages_names_all)

lemma takeWhile_until: "c \<notin> set a \<Longrightarrow> takeWhile (\<lambda>x. x \<noteq> c) (a @ c # b) = a"
  by (induction a) auto

lemma dropWhile_until: "c \<notin> set a \<Longrightarrow> dropWhile (\<lambda>x. x \<noteq> c) (a @ c # b) = c # b"
  by (induction a) auto

lemma split_first_at:
  "c \<notin> set a \<Longrightarrow> split_first c (a @ c # b) = [a, b]"
  by (simp add: split_first_def takeWhile_until dropWhile_until)

lemma split_sep_at:
  "c \<notin> set a \<Longrightarrow> split_sep c (a @ c # b) = a # split_sep c b"
  by (induction a) auto

lemma join_Cons_Cons: "join sep ((x # p) # ps) = x # join sep (p # ps)"
  by (cases ps) simp_all

lemma join_split_sep: "join [c] (split_sep c s) = s"
proof (induction s)
  case Nil
  then show ?case by simp
next
  case (Cons x xs)
  obtain p ps where s: "split_sep c xs = p # ps"
    by (cases "split_sep c xs") simp_all
  with Cons show ?case by (simp add: join_Cons_Cons)
qed

text \<open>A \<^verbatim>\<open>local:\<close> path that does not begin with the remote scheme resolves to itself.\<close>

lemma get_client_local_location:
  assumes "\<not> startswith p ''s3://''"
  shows "\<exists>r w'. get_client w m (''local:'' @ p)
                 = (Inr (LocalMeta \<lparr>l_client = Some r, dest_path = p\<rparr>), w', m)"
proof -
  have "split_first CHR '':'' (''local'' @ CHR '':'' # p) = [''local'', p]"
    by (rule split_first_at) simp
  then have sp: "split_first CHR '':'' (''local:'' @ p) = [''local'', p]" by simp
  have "\<exists>r w'. cached_client w ''local'' ''local'' None = (Inr r, w')"
    by (simp add: cached_client_def BACKEND_INIT_METHOD_def split: option.split)
  then obtain r w' where c: "cached_client w ''local'' ''local'' None = (Inr r, w')" by blast
  from assms c get_client_local [OF sp, of w m] show ?thesis
    by (simp add: get_local_meta_def)
qed

text \<open>A remote path round-trips when its bucket does not begin with one of the
  characters of the scheme.\<close>

lemma get_boto3_meta_roundtrip:
  assumes b: "bucket \<noteq> []" "CHR ''.'' \<notin> set bucket" "CHR ''/'' \<notin> set bucket"
    and h: "hd bucket \<notin> set ''s3:/''"
    and e: "host \<noteq> []" "\<forall>c \<in> set host. is_digit c \<or> c = CHR ''.''"
  shows "\<exists>mi. get_boto3_meta t pd (''s3://'' @ bucket @ ''.'' @ host @ ''/'' @ key) tmp a = Inr mi
           \<and> bucket_name mi = bucket \<and> endpoint mi = ''http://'' @ host @ '':80''
           \<and> file_path mi = key
           \<and> reserialize mi = bucket @ ''.'' @ host @ ''/'' @ key"
proof -
  let ?loc = "bucket @ ''.'' @ host @ ''/'' @ key"
  from b(1) obtain x xs where bx: "bucket = x # xs" by (cases bucket) simp_all
  with h have ls: "lstrip ''s3://'' (''s3://'' @ ?loc) = ?loc"
    by (simp add: lstrip_def)
  from e(2) have hs: "CHR ''/'' \<notin> set host"
    by (auto simp: is_digit_def)
  with b(3) have "CHR ''/'' \<notin> set (bucket @ ''.'' @ host)" by simp
  from split_sep_at [OF this, of key]
  have sp: "split_sep CHR ''/'' ?loc = (bucket @ ''.'' @ host) # split_sep CHR ''/'' key"
    by simp
  have tw: "takeWhile (\<lambda>c. c \<noteq> CHR ''.'') (bucket @ CHR ''.'' # host) = bucket"
    using b(2) by (rule takeWhile_until)
  have dw: "dropWhile (\<lambda>c. c \<noteq> CHR ''.'') (bucket @ CHR ''.'' # host) = CHR ''.'' # host"
    using b(2) by (rule dropWhile_until)
  have g2: "takeWhile (\<lambda>c. is_digit c \<or> c = CHR ''.'') host = host"
    using e(2) by (simp add: takeWhile_eq_all_conv)
  from b(1) e(1)
  have m: "boto3_url_match (bucket @ ''.'' @ host) = Some (bucket, host)"
    by (simp add: boto3_url_match_def Let_def tw dw g2 del: takeWhile_eq_all_conv)
  have st: "startswith (''s3://'' @ ?loc) ''s3://''"
    by (simp add: startswith_def)
  from st ls sp m show ?thesis
    by (simp add: get_boto3_meta_def reserialize_def join_split_sep [of "CHR ''/''", simplified])
qed

section \<open>The threshold the guard really has\<close>

lemma os_makedirs_statvfs: "os_makedirs w p = (r, w') \<Longrightarrow> same_statvfs w w'"
  by (auto simp: os_makedirs_def same_statvfs_def split: option.splits node.splits if_splits)

lemma os_chmod_rwx_statvfs: "os_chmod_rwx w p = (r, w') \<Longrightarrow> same_statvfs w w'"
  by (auto simp: os_chmod_rwx_def same_statvfs_def split: if_splits)

lemma os_remove_statvfs: "os_remove w p = (r, w') \<Longrightarrow> same_statvfs w w'"
  using os_remove_world [of w p r w'] by (auto simp: same_statvfs_def unlink_def)

lemma sweep_statvfs: "sweep w d names = (r, w') \<Longrightarrow> same_statvfs w w'"
proof (induction names arbitrary: w)
  case Nil
  then show ?case by (simp add: same_statvfs_def)
next
  case (Cons nm names)
  show ?case
  proof (cases "endswith nm ''.tmpfile''")
    case False
    with Cons.prems have "sweep w d names = (r, w')" by simp
    then show ?thesis by (rule Cons.IH)
  next
    case True
    obtain r1 w1 where o: "os_remove w (os_path_join d nm) = (r1, w1)"
      by (cases "os_remove w (os_path_join d nm)") auto
    note s1 = os_remove_statvfs [OF o]
    show ?thesis
    proof (cases r1)
      case (Inr u)
      with Cons.prems True o
      have "sweep (logger (Log_delete_tmpfile (os_path_join d nm)) w1) d names = (r, w')"
        by simp
      from Cons.IH [OF this] s1 show ?thesis by (simp add: same_statvfs_def logger_def)
    next
      case (Inl e)
      show ?thesis
      proof (cases "is_OSError e")
        case True
        with Cons.prems \<open>endswith nm ''.tmpfile''\<close> o Inl have "sweep w1 d names = (r, w')"
          by simp
        from Cons.IH [OF this] s1 show ?thesis by (simp add: same_statvfs_def)
      next
        case False
        with Cons.prems \<open>endswith nm ''.tmpfile''\<close> o Inl have "w' = w1" by simp
        with s1 show ?thesis by simp
      qed
    qed
  qed
qed

lemma try_delete_tmpfile_statvfs: "try_delete_tmpfile w d = (r, w') \<Longrightarrow> same_statvfs w w'"
  by (auto simp: try_delete_tmpfile_def same_statvfs_def split: sum.splits dest: sweep_statvfs)

text \<open>A construction with saving and asynchronous mode enabled that succeeds found more
  than \<open>107374182\<close> free bytes: a tenth of a GiB, not 100 GiB.\<close>

lemma init_success_free_space:
  assumes "StorageManager_init w True tmp True n = (Inr m, w')"
  shows "107374182 < f_bavail w * f_bsize w"
proof -
  let ?mk = "case os_makedirs w tmp of
               (Denied, w1) \<Rightarrow> (Inl PermissionError, w1)
             | (Exists_as_file, w1) \<Rightarrow> (Inr (), w1)
             | (Made, w1) \<Rightarrow> os_chmod_rwx w1 tmp"
  obtain r2 w2 where mk: "?mk = (r2, w2)" by (cases ?mk) auto
  have s2: "same_statvfs w w2"
  proof -
    obtain rm w1 where m: "os_makedirs w tmp = (rm, w1)" by (cases "os_makedirs w tmp") auto
    note s1 = os_makedirs_statvfs [OF m]
    from mk m have "w2 = w1 \<or> os_chmod_rwx w1 tmp = (r2, w2)"
      by (cases rm) simp_all
    with s1 show ?thesis
      by (auto dest: os_chmod_rwx_statvfs simp: same_statvfs_def)
  qed
  obtain r3 w3 where td: "try_delete_tmpfile w2 tmp = (r3, w3)"
    by (cases "try_delete_tmpfile w2 tmp") auto
  from try_delete_tmpfile_statvfs [OF td] s2 have s3: "same_statvfs w w3"
    by (simp add: same_statvfs_def)
  from assms mk td
  have "\<exists>free_size. get_mount_point_free_size w3 tmp = Some free_size \<and> \<not> free_size < float_0_1"
    by (auto simp: StorageManager_init_def Let_def
        split: if_splits sum.splits option.splits)
  then have "\<not> (of_nat (f_bavail w3 * f_bsize w3) / (1024 ^ 3) < float_0_1)"
    by (auto simp: get_mount_point_free_size_def split: if_splits)
  with free_space_guard [of "f_bavail w3 * f_bsize w3"] s3 show ?thesis
    by (simp add: same_statvfs_def)
qed

end
